theory Spec2Isabelle
  imports Main "HOL-Library.AList"
begin

section \<open>Values shared by the two scripts\<close>

text \<open>The exceptions the two scripts can meet.\<close>

datatype py_error =
    FileNotFoundError
  | IsADirectoryError
  | JSONDecodeError
  | TypeError
  | AttributeError
  | KeyError
  | OverflowError
  | FileExistsError
  | PermissionError
  | OSError

text \<open>\<open>str(n)\<close> for a Python int: decimal digits, with a minus sign below zero.\<close>

definition digit :: "nat \<Rightarrow> char" where
  "digit d = ''0123456789'' ! d"

fun str_nat :: "nat \<Rightarrow> string" where
  "str_nat n = (if n < 10 then [digit n] else str_nat (n div 10) @ [digit (n mod 10)])"

declare str_nat.simps [simp del]

definition str_int :: "int \<Rightarrow> string" where
  "str_int i = (if i < 0 then CHR ''-'' # str_nat (nat (- i)) else str_nat (nat i))"

text \<open>\<open>s.startswith(p)\<close> and the substring test \<open>p in s\<close> on strings.\<close>

definition starts_with :: "string \<Rightarrow> string \<Rightarrow> bool" where
  "starts_with s p = (take (length p) s = p)"

fun contains_str :: "string \<Rightarrow> string \<Rightarrow> bool" where
  "contains_str p [] = (p = [])"
| "contains_str p (c # cs) = (starts_with (c # cs) p \<or> contains_str p cs)"

section \<open>Value Rescaler (\<open>scale_weapon_damage.py\<close>)\<close>

subsection \<open>JSON values as \<open>json.load\<close> returns them\<close>

text \<open>
  A JSON object is a Python dict: an association list in insertion order. A JSON number
  without fraction or exponent is a Python int (unbounded); any other number is a Python
  float, a value of the type \<open>'f\<close> of the host's floats.
\<close>

datatype 'f json =
    JNull
  | JBool bool
  | JInt int
  | JFloat 'f
  | JStr string
  | JArr "'f json list"
  | JObj "(string \<times> 'f json) list"

text \<open>The scale factor is a Python number: an int (5 by default) or a float.\<close>

datatype 'f number = PInt int | PFloat 'f

text \<open>
  What the script takes from the Python runtime and its library: the conversion of an
  int to a float (\<open>None\<close> where the int is too large and Python raises OverflowError),
  the product of two floats (which never raises: it overflows to infinity), \<open>str()\<close>
  of a value as an f-string prints it, \<open>json.load\<close> on the text of a file, and
  \<open>json.dump(..., indent=2)\<close>.
\<close>

record 'f host =
  to_float :: "int \<Rightarrow> 'f option"
  fmul :: "'f \<Rightarrow> 'f \<Rightarrow> 'f"
  str_of :: "'f json \<Rightarrow> string"
  loads :: "string \<Rightarrow> py_error + 'f json"
  dumps :: "'f json \<Rightarrow> string"

text \<open>\<open>key in v\<close> for a string \<open>key\<close>: dict membership, list membership, substring.\<close>

fun py_in :: "string \<Rightarrow> 'f json \<Rightarrow> py_error + bool" where
  "py_in key (JObj kvs) = Inr (map_of kvs key \<noteq> None)"
| "py_in key (JArr xs) = Inr (JStr key \<in> set xs)"
| "py_in key (JStr s) = Inr (contains_str key s)"
| "py_in key _ = Inl TypeError"

text \<open>\<open>v[key]\<close> for a string \<open>key\<close>: only a dict can be indexed by a string.\<close>

fun py_getitem :: "'f json \<Rightarrow> string \<Rightarrow> py_error + 'f json" where
  "py_getitem (JObj kvs) key = (case map_of kvs key of None \<Rightarrow> Inl KeyError | Some x \<Rightarrow> Inr x)"
| "py_getitem _ key = Inl TypeError"

text \<open>\<open>v[key] = x\<close>: an existing key keeps its place, a new key goes last.\<close>

fun py_setitem :: "'f json \<Rightarrow> string \<Rightarrow> 'f json \<Rightarrow> py_error + 'f json" where
  "py_setitem (JObj kvs) key x = Inr (JObj (AList.update key x kvs))"
| "py_setitem _ key x = Inl TypeError"

text \<open>\<open>v.items()\<close>: only a dict has it.\<close>

fun py_items :: "'f json \<Rightarrow> py_error + (string \<times> 'f json) list" where
  "py_items (JObj kvs) = Inr kvs"
| "py_items _ = Inl AttributeError"

text \<open>
  \<open>v * factor\<close>: the product of two numbers (a bool counts as the int 0 or 1), the
  repetition of a string or a list by an int, a TypeError on a string or a list with a
  float, on \<open>None\<close> and on a dict. Where one number is an int and the other a float, the
  int is converted first, which raises OverflowError when it is too large for a float.
\<close>

fun py_mul :: "'f host \<Rightarrow> 'f json \<Rightarrow> 'f number \<Rightarrow> py_error + 'f json" where
  "py_mul h (JInt i) (PInt k) = Inr (JInt (i * k))"
| "py_mul h (JInt i) (PFloat y) =
     (case to_float h i of
        None \<Rightarrow> Inl OverflowError
      | Some x \<Rightarrow> Inr (JFloat (fmul h x y)))"
| "py_mul h (JFloat x) (PInt k) =
     (case to_float h k of
        None \<Rightarrow> Inl OverflowError
      | Some y \<Rightarrow> Inr (JFloat (fmul h x y)))"
| "py_mul h (JFloat x) (PFloat y) = Inr (JFloat (fmul h x y))"
| "py_mul h (JBool b) (PInt k) = Inr (JInt ((if b then 1 else 0) * k))"
| "py_mul h (JBool b) (PFloat y) =
     (case to_float h (if b then 1 else 0) of
        None \<Rightarrow> Inl OverflowError
      | Some x \<Rightarrow> Inr (JFloat (fmul h x y)))"
| "py_mul h (JStr s) (PInt k) = Inr (JStr (concat (replicate (nat k) s)))"
| "py_mul h (JStr s) (PFloat y) = Inl TypeError"
| "py_mul h (JArr xs) (PInt k) = Inr (JArr (concat (replicate (nat k) xs)))"
| "py_mul h (JArr xs) (PFloat y) = Inl TypeError"
| "py_mul h JNull factor = Inl TypeError"
| "py_mul h (JObj kvs) factor = Inl TypeError"

subsection \<open>\<open>scale_weapon_damage\<close>\<close>

text \<open>
  The body of the two \<open>for weapon_id, weapon in ... .items()\<close> loops (lines 23-28 and
  33-38): the weapon as the body leaves it, the line it prints, and \<open>changes_made\<close>.
\<close>

definition scale_weapon ::
  "'f host \<Rightarrow> 'f number \<Rightarrow> string \<Rightarrow> 'f json \<Rightarrow> bool
     \<Rightarrow> py_error + ('f json \<times> string list \<times> bool)" where
  "scale_weapon h scale_factor weapon_id weapon changes_made =
     (case py_in ''damage'' weapon of
        Inl e \<Rightarrow> Inl e
      | Inr False \<Rightarrow> Inr (weapon, [], changes_made)
      | Inr True \<Rightarrow>
          (case py_getitem weapon ''damage'' of
             Inl e \<Rightarrow> Inl e
           | Inr old_damage \<Rightarrow>
               (case py_mul h old_damage scale_factor of
                  Inl e \<Rightarrow> Inl e
                | Inr new_damage \<Rightarrow>
                    (case py_setitem weapon ''damage'' new_damage of
                       Inl e \<Rightarrow> Inl e
                     | Inr weapon' \<Rightarrow>
                         Inr (weapon',
                              [''  '' @ weapon_id @ '': '' @ str_of h old_damage @ '' -> ''
                                 @ str_of h new_damage],
                              True)))))"

text \<open>
  One \<open>for\<close> loop over the items of a mapping. The result carries the lines printed so
  far also when an iteration raises.
\<close>

fun scale_entries ::
  "'f host \<Rightarrow> 'f number \<Rightarrow> (string \<times> 'f json) list \<Rightarrow> bool
     \<Rightarrow> string list \<times> (py_error + ((string \<times> 'f json) list \<times> bool))" where
  "scale_entries h scale_factor [] changes_made = ([], Inr ([], changes_made))"
| "scale_entries h scale_factor ((weapon_id, weapon) # rest) changes_made =
     (case scale_weapon h scale_factor weapon_id weapon changes_made of
        Inl e \<Rightarrow> ([], Inl e)
      | Inr (weapon', line, changes_made') \<Rightarrow>
          (case scale_entries h scale_factor rest changes_made' of
             (out, Inl e) \<Rightarrow> (line @ out, Inl e)
           | (out, Inr (rest', changes_made'')) \<Rightarrow>
               (line @ out, Inr ((weapon_id, weapon') # rest', changes_made''))))"

text \<open>
  \<open>if field in data: for ... in data[field].items(): ...\<close> (lines 21-28 with
  \<open>field = 'weapons'\<close>, lines 31-38 with \<open>field = 'meleeWeapons'\<close>). The loop mutates
  the weapon dicts in place, so \<open>data[field]\<close> holds the scaled entries afterwards, at
  the place the field had.
\<close>

definition scale_field ::
  "'f host \<Rightarrow> 'f number \<Rightarrow> string \<Rightarrow> 'f json \<Rightarrow> bool
     \<Rightarrow> string list \<times> (py_error + ('f json \<times> bool))" where
  "scale_field h scale_factor field data changes_made =
     (case py_in field data of
        Inl e \<Rightarrow> ([], Inl e)
      | Inr False \<Rightarrow> ([], Inr (data, changes_made))
      | Inr True \<Rightarrow>
          (case py_getitem data field of
             Inl e \<Rightarrow> ([], Inl e)
           | Inr mapping \<Rightarrow>
               (case py_items mapping of
                  Inl e \<Rightarrow> ([], Inl e)
                | Inr entries \<Rightarrow>
                    (case scale_entries h scale_factor entries changes_made of
                       (out, Inl e) \<Rightarrow> (out, Inl e)
                     | (out, Inr (entries', changes_made')) \<Rightarrow>
                         (case py_setitem data field (JObj entries') of
                            Inl e \<Rightarrow> (out, Inl e)
                          | Inr data' \<Rightarrow> (out, Inr (data', changes_made')))))))"

text \<open>Lines 18-38: the work on the loaded document, before anything is written.\<close>

definition scale_data ::
  "'f host \<Rightarrow> 'f number \<Rightarrow> 'f json \<Rightarrow> string list \<times> (py_error + ('f json \<times> bool))" where
  "scale_data h scale_factor data =
     (case scale_field h scale_factor ''weapons'' data False of
        (out1, Inl e) \<Rightarrow> (out1, Inl e)
      | (out1, Inr (data1, changes_made1)) \<Rightarrow>
          (case scale_field h scale_factor ''meleeWeapons'' data1 changes_made1 of
             (out2, Inl e) \<Rightarrow> (out1 @ out2, Inl e)
           | (out2, Inr (data2, changes_made2)) \<Rightarrow> (out1 @ out2, Inr (data2, changes_made2))))"

text \<open>
  The files the script sees: paths (relative to the working directory) with what is
  there, a directory or a regular file. A regular file has its text, the exception
  \<open>open(path, 'r')\<close> raises on it, if any (no right to read), and the exception
  \<open>open(path, 'w')\<close> raises on it, if any (a read-only file).
\<close>

datatype fnode = FDir | FFile string "py_error option" "py_error option"

type_synonym files = "(string \<times> fnode) list"

definition path_exists :: "files \<Rightarrow> string \<Rightarrow> bool" where
  "path_exists fs p = (map_of fs p \<noteq> None)"

text \<open>\<open>with open(file_path, 'r') as f\<close>: the text read, or the exception.\<close>

definition open_read :: "files \<Rightarrow> string \<Rightarrow> py_error + string" where
  "open_read fs p =
     (case map_of fs p of
        None \<Rightarrow> Inl FileNotFoundError
      | Some FDir \<Rightarrow> Inl IsADirectoryError
      | Some (FFile text read_error write_error) \<Rightarrow>
          (case read_error of Some e \<Rightarrow> Inl e | None \<Rightarrow> Inr text))"

text \<open>
  \<open>with open(file_path, 'w') as f\<close> and the dump into \<open>f\<close>: the files with the new
  text at the path, or the exception of \<open>open\<close>, which leaves the files as they are.
\<close>

definition open_write :: "files \<Rightarrow> string \<Rightarrow> string \<Rightarrow> py_error + files" where
  "open_write fs p new_text =
     (case map_of fs p of
        None \<Rightarrow> Inr (AList.update p (FFile new_text None None) fs)
      | Some FDir \<Rightarrow> Inl IsADirectoryError
      | Some (FFile text read_error write_error) \<Rightarrow>
          (case write_error of
             Some e \<Rightarrow> Inl e
           | None \<Rightarrow> Inr (AList.update p (FFile new_text read_error write_error) fs)))"

text \<open>
  The whole function: the files after the call, the lines printed, and the value
  returned or the exception raised.
\<close>

definition scale_weapon_damage ::
  "'f host \<Rightarrow> files \<Rightarrow> string \<Rightarrow> 'f number \<Rightarrow> files \<times> string list \<times> (py_error + bool)" where
  "scale_weapon_damage h fs file_path scale_factor =
     (let out0 = [''Processing '' @ file_path @ ''...''] in
      case open_read fs file_path of
        Inl e \<Rightarrow> (fs, out0, Inl e)
      | Inr text \<Rightarrow>
          (case loads h text of
             Inl e \<Rightarrow> (fs, out0, Inl e)
           | Inr data \<Rightarrow>
               (case scale_data h scale_factor data of
                  (out1, Inl e) \<Rightarrow> (fs, out0 @ out1, Inl e)
                | (out1, Inr (data', changes_made)) \<Rightarrow>
                    if changes_made
                    then (case open_write fs file_path (dumps h data') of
                            Inl e \<Rightarrow> (fs, out0 @ out1, Inl e)
                          | Inr fs' \<Rightarrow>
                              (fs', out0 @ out1 @ [''  Updated '' @ file_path], Inr True))
                    else (fs,
                          out0 @ out1 @ [''  No damage values found in '' @ file_path],
                          Inr False))))"

subsection \<open>\<open>main\<close>\<close>

definition base_dir :: string where
  "base_dir = ''src/main/resources/data/themes''"

definition themes :: "string list" where
  "themes = [''test_theme'', ''civil_war'']"

definition weapon_files :: "string list" where
  "weapon_files = [''ranged-weapons.json'', ''melee-weapons.json'']"

text \<open>\<open>os.path.join\<close> of a directory and a plain name.\<close>

definition path_join :: "string \<Rightarrow> string \<Rightarrow> string" where
  "path_join a b = a @ ''/'' @ b"

text \<open>
  The inner loop \<open>for weapon_file in weapon_files\<close> (lines 70-77), with
  \<open>total_files_changed\<close> passed along. An exception of \<open>scale_weapon_damage\<close> ends
  the loop: nothing catches it.
\<close>

fun weapon_files_loop ::
  "'f host \<Rightarrow> string \<Rightarrow> string list \<Rightarrow> files \<Rightarrow> nat
     \<Rightarrow> files \<times> string list \<times> (py_error + nat)" where
  "weapon_files_loop h theme_dir [] fs total_files_changed = (fs, [], Inr total_files_changed)"
| "weapon_files_loop h theme_dir (weapon_file # rest) fs total_files_changed =
     (let file_path = path_join theme_dir weapon_file in
      if path_exists fs file_path then
        (case scale_weapon_damage h fs file_path (PInt 5) of
           (fs1, out1, Inl e) \<Rightarrow> (fs1, out1, Inl e)
         | (fs1, out1, Inr changed) \<Rightarrow>
             (case weapon_files_loop h theme_dir rest fs1
                     (if changed then total_files_changed + 1 else total_files_changed) of
                (fs2, out2, r) \<Rightarrow> (fs2, out1 @ out2, r)))
      else
        (case weapon_files_loop h theme_dir rest fs total_files_changed of
           (fs2, out2, r) \<Rightarrow>
             (fs2, (''  Warning: File '' @ file_path @ '' not found'') # out2, r)))"

text \<open>The outer loop \<open>for theme in themes\<close> (lines 62-77).\<close>

fun themes_loop ::
  "'f host \<Rightarrow> string list \<Rightarrow> files \<Rightarrow> nat \<Rightarrow> files \<times> string list \<times> (py_error + nat)" where
  "themes_loop h [] fs total_files_changed = (fs, [], Inr total_files_changed)"
| "themes_loop h (theme # rest) fs total_files_changed =
     (let out0 = CHR 0x0A # ''Processing theme: '' @ theme;
          theme_dir = path_join base_dir theme in
      if \<not> path_exists fs theme_dir then
        (case themes_loop h rest fs total_files_changed of
           (fs2, out2, r) \<Rightarrow>
             (fs2,
              out0 # (''  Warning: Theme directory '' @ theme_dir @ '' not found'') # out2,
              r))
      else
        (case weapon_files_loop h theme_dir weapon_files fs total_files_changed of
           (fs1, out1, Inl e) \<Rightarrow> (fs1, out0 # out1, Inl e)
         | (fs1, out1, Inr total1) \<Rightarrow>
             (case themes_loop h rest fs1 total1 of
                (fs2, out2, r) \<Rightarrow> (fs2, out0 # out1 @ out2, r))))"

definition banner :: "string list" where
  "banner =
     [''DC-11 Weapon Damage Scaling Script'',
      ''Scaling all weapon damage values by 5x for new 100 base health system'',
      replicate 60 CHR ''='']"

definition footer :: "nat \<Rightarrow> string list" where
  "footer total_files_changed =
     [CHR 0x0A # replicate 60 CHR ''='',
      ''Weapon damage scaling complete!'',
      ''Files updated: '' @ str_nat total_files_changed,
      ''All weapon damage values have been scaled by 5x to match the new 100 base health system.'']"

text \<open>
  \<open>main\<close> of \<open>scale_weapon_damage.py\<close>: the files after the run, everything
  printed, and how the run ends: \<open>Inr ()\<close> when \<open>main\<close> returns, \<open>Inl e\<close> when the
  exception \<open>e\<close> leaves it.
\<close>

definition main_rescaler :: "'f host \<Rightarrow> files \<Rightarrow> files \<times> string list \<times> (py_error + unit)" where
  "main_rescaler h fs =
     (case themes_loop h themes fs 0 of
        (fs', out, Inl e) \<Rightarrow> (fs', banner @ out, Inl e)
      | (fs', out, Inr total_files_changed) \<Rightarrow>
          (fs', banner @ out @ footer total_files_changed, Inr ()))"

text \<open>
  The exit code of the process: 0 when \<open>main\<close> returns, 1 when an exception reaches the
  top level (the interpreter prints the traceback on stderr).
\<close>

definition exit_code :: "py_error + unit \<Rightarrow> nat" where
  "exit_code r = (case r of Inl e \<Rightarrow> 1 | Inr u \<Rightarrow> 0)"

subsection \<open>Weapon documents\<close>

text \<open>
  The data model of the specification: a weapon document is an object whose fields
  \<open>weapons\<close> and \<open>meleeWeapons\<close>, when present, map identifiers to weapon records; a
  weapon record is an object whose \<open>damage\<close>, when present, is a number.
\<close>

fun numeric :: "'f json \<Rightarrow> bool" where
  "numeric (JInt i) = True"
| "numeric (JFloat x) = True"
| "numeric v = False"

fun integral :: "'f json \<Rightarrow> bool" where
  "integral (JInt i) = True"
| "integral v = False"

fun fields_of :: "'f json \<Rightarrow> (string \<times> 'f json) list" where
  "fields_of (JObj kvs) = kvs"
| "fields_of v = []"

fun is_object :: "'f json \<Rightarrow> bool" where
  "is_object (JObj kvs) = True"
| "is_object v = False"

definition damage_of :: "'f json \<Rightarrow> 'f json option" where
  "damage_of weapon = map_of (fields_of weapon) ''damage''"

definition weapon_record :: "'f json \<Rightarrow> bool" where
  "weapon_record weapon =
     (is_object weapon \<and> (case damage_of weapon of None \<Rightarrow> True | Some d \<Rightarrow> numeric d))"

definition entries_of :: "'f json \<Rightarrow> string \<Rightarrow> (string \<times> 'f json) list" where
  "entries_of data field =
     (case map_of (fields_of data) field of None \<Rightarrow> [] | Some mapping \<Rightarrow> fields_of mapping)"

definition weapon_mapping :: "'f json \<Rightarrow> string \<Rightarrow> bool" where
  "weapon_mapping data field =
     (case map_of (fields_of data) field of
        None \<Rightarrow> True
      | Some mapping \<Rightarrow> is_object mapping \<and> list_all (\<lambda>(weapon_id, weapon). weapon_record weapon) (fields_of mapping))"

definition weapon_document :: "'f json \<Rightarrow> bool" where
  "weapon_document data =
     (is_object data \<and> weapon_mapping data ''weapons'' \<and> weapon_mapping data ''meleeWeapons'')"

text \<open>Some entry of \<open>weapons\<close> or of \<open>meleeWeapons\<close> has a \<open>damage\<close> key.\<close>

definition has_damage :: "'f json \<Rightarrow> bool" where
  "has_damage data =
     (list_ex (\<lambda>(weapon_id, weapon). damage_of weapon \<noteq> None) (entries_of data ''weapons'') \<or>
      list_ex (\<lambda>(weapon_id, weapon). damage_of weapon \<noteq> None) (entries_of data ''meleeWeapons''))"

text \<open>Every \<open>damage\<close> of the document is a Python int.\<close>

definition integral_damage :: "'f json \<Rightarrow> bool" where
  "integral_damage data =
     (list_all (\<lambda>(weapon_id, weapon). case damage_of weapon of None \<Rightarrow> True | Some d \<Rightarrow> integral d)
        (entries_of data ''weapons'' @ entries_of data ''meleeWeapons''))"

text \<open>
  No product \<open>damage * factor\<close> of the document raises: no int too large for a float
  meets a float.
\<close>

definition product_defined :: "'f host \<Rightarrow> 'f number \<Rightarrow> 'f json \<Rightarrow> bool" where
  "product_defined h factor d = (case py_mul h d factor of Inl e \<Rightarrow> False | Inr v \<Rightarrow> True)"

definition damage_defined :: "'f host \<Rightarrow> 'f number \<Rightarrow> 'f json \<Rightarrow> bool" where
  "damage_defined h factor weapon =
     (case damage_of weapon of None \<Rightarrow> True | Some d \<Rightarrow> product_defined h factor d)"

definition products_defined :: "'f host \<Rightarrow> 'f number \<Rightarrow> 'f json \<Rightarrow> bool" where
  "products_defined h factor data =
     (list_all (\<lambda>(weapon_id, weapon). damage_defined h factor weapon)
        (entries_of data ''weapons'' @ entries_of data ''meleeWeapons''))"

subsection \<open>The rescaled document, as the specification describes it\<close>

text \<open>
  Section 4.2 of the specification: for each of the two recognised top-level fields, if
  present, for each entry possessing a \<open>damage\<close> attribute, replace it with
  \<open>damage * factor\<close>. These definitions follow those words, for comparison with
  \<open>scale_data\<close>; the product is Python's, where it is defined.
\<close>

definition times_factor :: "'f host \<Rightarrow> 'f number \<Rightarrow> 'f json \<Rightarrow> 'f json" where
  "times_factor h factor d = (case py_mul h d factor of Inl e \<Rightarrow> d | Inr v \<Rightarrow> v)"

definition rescaled_record :: "'f host \<Rightarrow> 'f number \<Rightarrow> 'f json \<Rightarrow> 'f json" where
  "rescaled_record h factor weapon =
     (case damage_of weapon of
        None \<Rightarrow> weapon
      | Some d \<Rightarrow> JObj (AList.update ''damage'' (times_factor h factor d) (fields_of weapon)))"

definition rescaled_entries ::
  "'f host \<Rightarrow> 'f number \<Rightarrow> (string \<times> 'f json) list \<Rightarrow> (string \<times> 'f json) list" where
  "rescaled_entries h factor entries =
     map (\<lambda>(weapon_id, weapon). (weapon_id, rescaled_record h factor weapon)) entries"

definition rescaled_field :: "'f host \<Rightarrow> 'f number \<Rightarrow> string \<Rightarrow> 'f json \<Rightarrow> 'f json" where
  "rescaled_field h factor field data =
     (case map_of (fields_of data) field of
        None \<Rightarrow> data
      | Some mapping \<Rightarrow>
          JObj (AList.update field (JObj (rescaled_entries h factor (fields_of mapping)))
                  (fields_of data)))"

definition rescaled :: "'f host \<Rightarrow> 'f number \<Rightarrow> 'f json \<Rightarrow> 'f json" where
  "rescaled h factor data =
     rescaled_field h factor ''meleeWeapons'' (rescaled_field h factor ''weapons'' data)"

text \<open>The line the loop prints for an entry: none when the entry has no \<open>damage\<close>.\<close>

definition damage_line :: "'f host \<Rightarrow> 'f number \<Rightarrow> string \<times> 'f json \<Rightarrow> string list" where
  "damage_line h factor entry =
     (case damage_of (snd entry) of
        None \<Rightarrow> []
      | Some d \<Rightarrow>
          [''  '' @ fst entry @ '': '' @ str_of h d @ '' -> '' @ str_of h (times_factor h factor d)])"

definition damage_lines :: "'f host \<Rightarrow> 'f number \<Rightarrow> 'f json \<Rightarrow> string list" where
  "damage_lines h factor data =
     concat (map (damage_line h factor) (entries_of data ''weapons'')) @
     concat (map (damage_line h factor) (entries_of data ''meleeWeapons''))"

section \<open>Archive Relocator (\<open>plans/move_cycle_to_completed.py\<close>)\<close>

subsection \<open>The directory of the script\<close>

text \<open>
  \<open>script_dir\<close> is the directory \<open>plans\<close> the script lies in: its entries by name, in
  the order \<open>glob\<close> lists them. An entry is a regular file with its text or a directory
  with its own entries; \<open>completed\<close> is one of the entries of \<open>plans\<close>.
\<close>

datatype node = File string | Dir "(string \<times> node) list"

type_synonym listing = "(string \<times> node) list"

text \<open>
  What the script takes from its environment: \<open>int(s)\<close> on the argument (\<open>None\<close> where
  it raises ValueError), the exception \<open>shutil.move\<close> raises on a file, if any (a file in
  use, missing rights), and the text \<open>str(e)\<close> of an exception.
\<close>

record env =
  int_of :: "string \<Rightarrow> int option"
  move_raises :: "string \<Rightarrow> py_error option"
  str_exc :: "py_error \<Rightarrow> string"

text \<open>\<open>f"{n:04d}"\<close>: at least four characters, zeros after the sign.\<close>

definition zero_pad :: "nat \<Rightarrow> string \<Rightarrow> string" where
  "zero_pad w s = replicate (w - length s) CHR ''0'' @ s"

definition format_04d :: "int \<Rightarrow> string" where
  "format_04d n =
     (if n < 0 then CHR ''-'' # zero_pad 3 (str_nat (nat (- n))) else zero_pad 4 (str_nat (nat n)))"

text \<open>
  \<open>completed_dir.mkdir(exist_ok=True)\<close>: creates the directory when nothing has the
  name, leaves a directory alone, raises FileExistsError on a regular file.
\<close>

definition mkdir_exist_ok :: "listing \<Rightarrow> py_error + listing" where
  "mkdir_exist_ok script_dir =
     (case map_of script_dir ''completed'' of
        None \<Rightarrow> Inr (script_dir @ [(''completed'', Dir [])])
      | Some (Dir entries) \<Rightarrow> Inr script_dir
      | Some (File text) \<Rightarrow> Inl FileExistsError)"

text \<open>
  \<open>script_dir.glob(pattern)\<close> for a pattern whose only wildcard is a final \<open>*\<close>, as
  \<open>DevCycle_2025_0013*\<close> is: the names that start with the pattern less its star.
\<close>

definition glob :: "listing \<Rightarrow> string \<Rightarrow> string list" where
  "glob script_dir pattern = filter (\<lambda>name. starts_with name (butlast pattern)) (map fst script_dir)"

definition completed_entries :: "listing \<Rightarrow> listing" where
  "completed_entries script_dir =
     (case map_of script_dir ''completed'' of Some (Dir entries) \<Rightarrow> entries | _ \<Rightarrow> [])"

text \<open>\<open>destination.exists()\<close> for \<open>destination = completed_dir / name\<close>.\<close>

definition destination_exists :: "listing \<Rightarrow> string \<Rightarrow> bool" where
  "destination_exists script_dir name = (map_of (completed_entries script_dir) name \<noteq> None)"

text \<open>
  \<open>shutil.move(file_path, destination)\<close> where the destination does not exist: the
  entry leaves \<open>plans\<close> and enters \<open>completed\<close>, unless the move raises, which leaves
  both directories as they were.
\<close>

definition shutil_move :: "env \<Rightarrow> listing \<Rightarrow> string \<Rightarrow> py_error + listing" where
  "shutil_move env script_dir name =
     (case move_raises env name of
        Some e \<Rightarrow> Inl e
      | None \<Rightarrow>
          (case map_of script_dir name of
             None \<Rightarrow> Inl FileNotFoundError
           | Some node \<Rightarrow>
               Inr (AList.update ''completed''
                      (Dir (completed_entries script_dir @ [(name, node)]))
                      (AList.delete name script_dir))))"

subsection \<open>\<open>move_cycle_files\<close>\<close>

definition skip_line :: "string \<Rightarrow> string" where
  "skip_line name = ''  WARNING: '' @ name @ '' already exists in completed folder, skipping''"

text \<open>The check mark and the cross are three bytes each in UTF-8.\<close>

definition moved_line :: "string \<Rightarrow> string" where
  "moved_line name = ''  '' @ [CHR 0xE2, CHR 0x9C, CHR 0x93] @ '' Moved: '' @ name"

definition error_line :: "env \<Rightarrow> string \<Rightarrow> py_error \<Rightarrow> string" where
  "error_line env name e =
     ''  '' @ [CHR 0xE2, CHR 0x9C, CHR 0x97] @ '' Error moving '' @ name @ '': '' @ str_exc env e"

text \<open>
  The loop \<open>for file_path in matching_files\<close> (lines 55-70), over the names found
  before the loop: the directory after it, the lines printed, and \<open>moved_count\<close>.
\<close>

fun move_loop :: "env \<Rightarrow> string list \<Rightarrow> listing \<Rightarrow> nat \<Rightarrow> listing \<times> string list \<times> nat" where
  "move_loop env [] script_dir moved_count = (script_dir, [], moved_count)"
| "move_loop env (name # rest) script_dir moved_count =
     (if destination_exists script_dir name then
        (case move_loop env rest script_dir moved_count of
           (script_dir', out, n) \<Rightarrow> (script_dir', skip_line name # out, n))
      else
        (case shutil_move env script_dir name of
           Inl e \<Rightarrow>
             (case move_loop env rest script_dir moved_count of
                (script_dir', out, n) \<Rightarrow> (script_dir', error_line env name e # out, n))
         | Inr script_dir1 \<Rightarrow>
             (case move_loop env rest script_dir1 (moved_count + 1) of
                (script_dir', out, n) \<Rightarrow> (script_dir', moved_line name # out, n))))"

definition pattern_of :: "int \<Rightarrow> string" where
  "pattern_of cycle_number = ''DevCycle_2025_'' @ format_04d cycle_number @ ''*''"

definition summary_line :: "nat \<Rightarrow> string" where
  "summary_line moved_count =
     CHR 0x0A # ''Completed: '' @ str_nat moved_count @ '' files moved to completed folder''"

definition move_cycle_files ::
  "env \<Rightarrow> listing \<Rightarrow> int \<Rightarrow> listing \<times> string list \<times> (py_error + unit)" where
  "move_cycle_files env script_dir cycle_number =
     (case mkdir_exist_ok script_dir of
        Inl e \<Rightarrow> (script_dir, [], Inl e)
      | Inr script_dir1 \<Rightarrow>
          (let pattern = pattern_of cycle_number;
               matching_files = glob script_dir1 pattern in
           if matching_files = [] then
             (script_dir1, [''No files found matching pattern: '' @ pattern], Inr ())
           else
             (case move_loop env matching_files script_dir1 0 of
                (script_dir2, out, moved_count) \<Rightarrow>
                  (script_dir2,
                   (''Found '' @ str_nat (length matching_files) @ '' files to move:'') # out
                     @ [summary_line moved_count],
                   Inr ()))))"

subsection \<open>\<open>main\<close>\<close>

definition usage :: "string list" where
  "usage =
     [''Usage: python move_cycle_to_completed.py <cycle_number>'',
      ''Example: python move_cycle_to_completed.py 13'']"

definition not_integer_message :: string where
  "not_integer_message = ''Error: Cycle number must be a valid integer''"

definition out_of_range_message :: string where
  "out_of_range_message = ''Error: Cycle number must be between 1 and 9999''"

text \<open>
  \<open>main\<close> of \<open>move_cycle_to_completed.py\<close> on \<open>sys.argv\<close>: the directory after the
  run, the lines printed, and the exit code of the process.
\<close>

definition main_relocator :: "env \<Rightarrow> string list \<Rightarrow> listing \<Rightarrow> listing \<times> string list \<times> nat" where
  "main_relocator env argv script_dir =
     (if length argv \<noteq> 2 then (script_dir, usage, 1)
      else
        (case int_of env (argv ! 1) of
           None \<Rightarrow> (script_dir, [not_integer_message], 1)
         | Some cycle_number \<Rightarrow>
             if cycle_number < 1 \<or> cycle_number > 9999 then
               (script_dir, [out_of_range_message], 1)
             else
               (let out0 = ''Moving DevCycle 2025-'' @ format_04d cycle_number
                             @ '' files to completed folder...'' in
                case move_cycle_files env script_dir cycle_number of
                  (script_dir', out, Inl e) \<Rightarrow>
                    (script_dir', out0 # out @ [''Error: '' @ str_exc env e], 1)
                | (script_dir', out, Inr u) \<Rightarrow> (script_dir', out0 # out, 0))))"

subsection \<open>What the loop does with a file\<close>

text \<open>
  Read off the directory as it is before the loop: a file is moved when no entry of
  \<open>completed\<close> has its name and \<open>shutil.move\<close> does not raise on it, and the line the
  loop prints for it tells which of the three cases it met.
\<close>

definition will_move :: "env \<Rightarrow> listing \<Rightarrow> string \<Rightarrow> bool" where
  "will_move env script_dir name =
     (\<not> destination_exists script_dir name \<and> move_raises env name = None)"

definition report :: "env \<Rightarrow> listing \<Rightarrow> string \<Rightarrow> string" where
  "report env script_dir name =
     (if destination_exists script_dir name then skip_line name
      else case move_raises env name of
             Some e \<Rightarrow> error_line env name e
           | None \<Rightarrow> moved_line name)"

definition found_line :: "nat \<Rightarrow> string" where
  "found_line n = ''Found '' @ str_nat n @ '' files to move:''"

text \<open>The name \<open>completed\<close> belongs to a regular file: \<open>mkdir\<close> will raise.\<close>

definition completed_is_file :: "listing \<Rightarrow> bool" where
  "completed_is_file script_dir =
     (case map_of script_dir ''completed'' of Some (File text) \<Rightarrow> True | _ \<Rightarrow> False)"

subsection \<open>What a rewrite keeps\<close>

text \<open>
  Two association lists hold the same keys in the same order, and the same value at
  every key outside \<open>keys\<close>.
\<close>

definition preserved_except ::
  "string list \<Rightarrow> (string \<times> 'a) list \<Rightarrow> (string \<times> 'a) list \<Rightarrow> bool" where
  "preserved_except keys old new =
     list_all2 (\<lambda>a b. fst b = fst a \<and> (fst a \<notin> set keys \<longrightarrow> snd b = snd a)) old new"

text \<open>The exception \<open>open(path, 'w')\<close> raises at a path, if any.\<close>

definition write_raises :: "files \<Rightarrow> string \<Rightarrow> py_error option" where
  "write_raises fs p =
     (case map_of fs p of
        None \<Rightarrow> None
      | Some FDir \<Rightarrow> Some IsADirectoryError
      | Some (FFile text read_error write_error) \<Rightarrow> write_error)"

subsection \<open>Files that end the run\<close>

text \<open>
  A configured file that is there, in a theme directory that is there, and on which
  \<open>scale_weapon_damage\<close>, called as \<open>main\<close> calls it, raises \<open>e\<close>: the file cannot be
  read, its text does not load, the document is not of the shape the loops expect, a
  product overflows, or the file cannot be written.
\<close>

definition stops_run :: "'f host \<Rightarrow> files \<Rightarrow> string \<Rightarrow> string \<Rightarrow> py_error \<Rightarrow> bool" where
  "stops_run h fs theme weapon_file e =
     (path_exists fs (path_join base_dir theme) \<and>
      path_exists fs (path_join (path_join base_dir theme) weapon_file) \<and>
      snd (snd (scale_weapon_damage h fs (path_join (path_join base_dir theme) weapon_file)
                  (PInt 5))) = Inl e)"

definition theme_paths :: "string list \<Rightarrow> string list" where
  "theme_paths ths =
     concat (map (\<lambda>theme. map (path_join (path_join base_dir theme)) weapon_files) ths)"

definition missing_dir_warning :: "string \<Rightarrow> string" where
  "missing_dir_warning theme =
     ''  Warning: Theme directory '' @ path_join base_dir theme @ '' not found''"

definition missing_file_warning :: "string \<Rightarrow> string \<Rightarrow> string" where
  "missing_file_warning theme weapon_file =
     ''  Warning: File '' @ path_join (path_join base_dir theme) weapon_file @ '' not found''"

section \<open>Instances for the closed examples\<close>

subsection \<open>Doubles\<close>

text \<open>
  The floats of the examples are IEEE 754 doubles: a finite double is a sign, a mantissa
  that is odd or zero, and an exponent, with the value mantissa times two to the
  exponent. An exact product is rounded to 53 bits, ties to even, and no lower than the
  exponent -1074 of the subnormals; a result of \<open>2^1024\<close> or more is infinite.
\<close>

datatype double = Finite bool nat int | Infinite bool | NaN

fun bit_length :: "nat \<Rightarrow> nat" where
  "bit_length n = (if n = 0 then 0 else Suc (bit_length (n div 2)))"

declare bit_length.simps [simp del]

fun strip_zeros :: "nat \<Rightarrow> int \<Rightarrow> nat \<times> int" where
  "strip_zeros m e =
     (if m = 0 then (0, 0) else if even m then strip_zeros (m div 2) (e + 1) else (m, e))"

declare strip_zeros.simps [simp del]

definition round_shift :: "nat \<Rightarrow> nat \<Rightarrow> nat" where
  "round_shift m k =
     (let q = m div 2 ^ k; r = m mod 2 ^ k in
      if 2 * r > 2 ^ k \<or> (2 * r = 2 ^ k \<and> odd q) then q + 1 else q)"

definition round_double :: "bool \<Rightarrow> nat \<Rightarrow> int \<Rightarrow> double" where
  "round_double negative m e =
     (let k = max (int (bit_length m) - 53) (- 1074 - e);
          m' = (if k > 0 then round_shift m (nat k) else m);
          e' = (if k > 0 then e + k else e) in
      if int (bit_length m') + e' > 1024 then Infinite negative
      else case strip_zeros m' e' of (m'', e'') \<Rightarrow> Finite negative m'' e'')"

text \<open>
  \<open>float(i)\<close>: the nearest double, or OverflowError where the int rounds to \<open>2^1024\<close>
  or more, as every int from \<open>2^1024\<close> on does.
\<close>

definition double_of_int :: "int \<Rightarrow> double option" where
  "double_of_int i =
     (if \<bar>i\<bar> \<ge> 2 ^ 1024 then None
      else case round_double (i < 0) (nat \<bar>i\<bar>) 0 of
             Infinite negative \<Rightarrow> None
           | d \<Rightarrow> Some d)"

fun double_mul :: "double \<Rightarrow> double \<Rightarrow> double" where
  "double_mul (Finite s1 m1 e1) (Finite s2 m2 e2) = round_double (s1 \<noteq> s2) (m1 * m2) (e1 + e2)"
| "double_mul (Finite s1 m1 e1) (Infinite s2) = (if m1 = 0 then NaN else Infinite (s1 \<noteq> s2))"
| "double_mul (Infinite s1) (Finite s2 m2 e2) = (if m2 = 0 then NaN else Infinite (s1 \<noteq> s2))"
| "double_mul (Infinite s1) (Infinite s2) = Infinite (s1 \<noteq> s2)"
| "double_mul NaN y = NaN"
| "double_mul x NaN = NaN"

subsection \<open>A host\<close>

text \<open>
  A host for the examples: its floats are the doubles above; its \<open>json.load\<close> knows the
  texts of the examples, any other text being malformed for it; it prints and dumps a
  value in compact form, a float by its mantissa and exponent (Python prints the
  shortest decimal that reads back: no example depends on the digits).
\<close>

fun join :: "string \<Rightarrow> string list \<Rightarrow> string" where
  "join sep [] = []"
| "join sep [x] = x"
| "join sep (x # y # ys) = x @ sep @ join sep (y # ys)"

fun render_double :: "double \<Rightarrow> string" where
  "render_double (Finite s m e) =
     (if s then ''-'' else '''') @ str_nat m @ ''*2**'' @ str_int e"
| "render_double (Infinite s) = (if s then ''-Infinity'' else ''Infinity'')"
| "render_double NaN = ''NaN''"

fun render :: "double json \<Rightarrow> string" where
  "render JNull = ''null''"
| "render (JBool b) = (if b then ''true'' else ''false'')"
| "render (JInt i) = str_int i"
| "render (JFloat x) = render_double x"
| "render (JStr s) = CHR 0x22 # s @ [CHR 0x22]"
| "render (JArr xs) = ''['' @ join '', '' (map render xs) @ '']''"
| "render (JObj kvs) =
     ''{'' @ join '', '' (map (\<lambda>kv. CHR 0x22 # fst kv @ [CHR 0x22] @ '': '' @ render (snd kv)) kvs) @ ''}''"

definition pistol_text :: string where
  \<open>pistol_text = ''{"weapons": {"pistol": {"damage": 10}}}''\<close>

definition pistol_doc :: "int \<Rightarrow> double json" where
  "pistol_doc damage = JObj [(''weapons'', JObj [(''pistol'', JObj [(''damage'', JInt damage)])])]"

definition fist_text :: string where
  \<open>fist_text = ''{"meleeWeapons": {"fist": {"damage": 0, "reach": 1}}}''\<close>

definition fist_doc :: "double json" where
  "fist_doc =
     JObj [(''meleeWeapons'', JObj [(''fist'', JObj [(''damage'', JInt 0), (''reach'', JInt 1)])])]"

definition net_text :: string where
  \<open>net_text = ''{"weapons": {"net": {"range": 3}}}''\<close>

definition net_doc :: "double json" where
  "net_doc = JObj [(''weapons'', JObj [(''net'', JObj [(''range'', JInt 3)])])]"

text \<open>
  A weapon document with a float \<open>damage\<close>, as \<open>{"weapons": {"laser": {"damage": x}}}\<close>
  loads. The double nearest to 1.1 is \<open>2476979795053773 * 2^-51\<close>, 1.5 is \<open>3 * 2^-1\<close>,
  27.5 is \<open>55 * 2^-1\<close>, and the next double after 27.5, which Python prints as
  27.500000000000004, is \<open>7740561859543041 * 2^-48\<close>.
\<close>

definition laser_doc :: "double \<Rightarrow> double json" where
  "laser_doc damage = JObj [(''weapons'', JObj [(''laser'', JObj [(''damage'', JFloat damage)])])]"

text \<open>A text cut off after the first key: no JSON parser accepts it.\<close>

definition broken_text :: string where
  \<open>broken_text = ''{"weapons": ''\<close>

definition sample_texts :: "(string \<times> double json) list" where
  "sample_texts = [(pistol_text, pistol_doc 10), (fist_text, fist_doc), (net_text, net_doc)]"

definition sample_host :: "double host" where
  "sample_host =
     \<lparr>to_float = double_of_int,
      fmul = double_mul,
      str_of = render,
      loads = (\<lambda>text. case map_of sample_texts text of
                         None \<Rightarrow> Inl JSONDecodeError
                       | Some data \<Rightarrow> Inr data),
      dumps = render\<rparr>"

text \<open>
  A tree for the examples: the theme \<open>test_theme\<close> alone, with a cut-off
  \<open>ranged-weapons.json\<close> and a well-formed \<open>melee-weapons.json\<close>.
\<close>

definition broken_path :: string where
  "broken_path = ''src/main/resources/data/themes/test_theme/ranged-weapons.json''"

definition broken_fs :: files where
  "broken_fs =
     [(''src/main/resources/data/themes/test_theme'', FDir),
      (broken_path, FFile broken_text None None),
      (''src/main/resources/data/themes/test_theme/melee-weapons.json'',
       FFile fist_text None None)]"

text \<open>
  A tree the run gets through: the theme \<open>test_theme\<close> alone, holding the pistol
  document and no \<open>melee-weapons.json\<close>. And the same tree with the file read-only.
\<close>

definition pistol_path :: string where
  "pistol_path = ''src/main/resources/data/themes/test_theme/ranged-weapons.json''"

definition good_fs :: files where
  "good_fs =
     [(''src/main/resources/data/themes/test_theme'', FDir),
      (pistol_path, FFile pistol_text None None)]"

definition read_only_fs :: files where
  "read_only_fs =
     [(''src/main/resources/data/themes/test_theme'', FDir),
      (pistol_path, FFile pistol_text None (Some PermissionError))]"

text \<open>
  An environment for the examples. Its \<open>int()\<close> reads decimal digits after an optional
  sign (Python's also takes blanks around the number and underscores between digits);
  \<open>shutil.move\<close> raises on the one file \<open>DevCycle_2025_0013_locked.md\<close>.
\<close>

definition digit_value :: "char \<Rightarrow> nat option" where
  "digit_value c = map_of (zip ''0123456789'' [0 ..< 10]) c"

fun digits_value :: "nat \<Rightarrow> string \<Rightarrow> nat option" where
  "digits_value acc [] = Some acc"
| "digits_value acc (c # cs) =
     (case digit_value c of None \<Rightarrow> None | Some d \<Rightarrow> digits_value (10 * acc + d) cs)"

definition sample_int_of :: "string \<Rightarrow> int option" where
  "sample_int_of s =
     (case s of
        [] \<Rightarrow> None
      | c # cs \<Rightarrow>
          if c = CHR ''-'' then (if cs = [] then None else map_option (\<lambda>n. - int n) (digits_value 0 cs))
          else if c = CHR ''+'' then (if cs = [] then None else map_option int (digits_value 0 cs))
          else map_option int (digits_value 0 (c # cs)))"

definition sample_env :: env where
  "sample_env =
     \<lparr>int_of = sample_int_of,
      move_raises = (\<lambda>name. if name = ''DevCycle_2025_0013_locked.md''
                             then Some PermissionError else None),
      str_exc = (\<lambda>e. if e = PermissionError then ''[Errno 13] Permission denied''
                      else if e = FileExistsError then ''[Errno 17] File exists''
                      else ''error'')\<rparr>"

text \<open>
  Directories for the examples: \<open>plans\<close> with three files of cycle 13, one of them
  already in \<open>completed\<close> and one that cannot be moved; and a \<open>plans\<close> without any file
  of the cycle and without \<open>completed\<close>.
\<close>

definition plans13 :: listing where
  "plans13 =
     [(''DevCycle_2025_0013_locked.md'', File ''notes''),
      (''DevCycle_2025_0013.md'', File ''plan''),
      (''DevCycle_2025_0013_bugs_01.md'', File ''new bugs''),
      (''README.md'', File ''readme''),
      (''completed'', Dir [(''DevCycle_2025_0013_bugs_01.md'', File ''old bugs'')])]"

definition plans13_after :: listing where
  "plans13_after =
     [(''DevCycle_2025_0013_locked.md'', File ''notes''),
      (''DevCycle_2025_0013_bugs_01.md'', File ''new bugs''),
      (''README.md'', File ''readme''),
      (''completed'', Dir [(''DevCycle_2025_0013_bugs_01.md'', File ''old bugs''),
                           (''DevCycle_2025_0013.md'', File ''plan'')])]"

definition plans_empty :: listing where
  "plans_empty = [(''README.md'', File ''readme'')]"

text \<open>What the run for cycle 13 prints on \<open>plans13\<close>.\<close>

definition plans13_out :: "string list" where
  "plans13_out =
     [''Found 3 files to move:'',
      error_line sample_env ''DevCycle_2025_0013_locked.md'' PermissionError,
      moved_line ''DevCycle_2025_0013.md'',
      skip_line ''DevCycle_2025_0013_bugs_01.md'',
      summary_line 1]"

section \<open>Properties of the Value Rescaler\<close>

subsection \<open>The loops on a weapon document\<close>

lemma py_mul_defined: "product_defined h k d \<Longrightarrow> py_mul h d k = Inr (times_factor h k d)"
  by (simp add: product_defined_def times_factor_def split: sum.splits)

lemma scale_weapon_record:
  assumes "weapon_record w" and "damage_defined h k w"
  shows "scale_weapon h k wid w c =
           Inr (rescaled_record h k w, damage_line h k (wid, w), c \<or> damage_of w \<noteq> None)"
proof -
  from assms(1) obtain r where w: "w = JObj r"
    by (cases w) (simp_all add: weapon_record_def)
  show ?thesis
  proof (cases "map_of r ''damage''")
    case None
    then show ?thesis
      by (simp add: w scale_weapon_def rescaled_record_def damage_line_def damage_of_def)
  next
    case (Some d)
    with assms(2) w have "product_defined h k d"
      by (simp add: damage_defined_def damage_of_def)
    then have "py_mul h d k = Inr (times_factor h k d)"
      by (rule py_mul_defined)
    with Some show ?thesis
      by (simp add: w scale_weapon_def rescaled_record_def damage_line_def damage_of_def)
  qed
qed

lemma scale_entries_records:
  "list_all (\<lambda>(wid, w). weapon_record w) es \<Longrightarrow>
   list_all (\<lambda>(wid, w). damage_defined h k w) es \<Longrightarrow>
   scale_entries h k es c =
     (concat (map (damage_line h k) es),
      Inr (rescaled_entries h k es, c \<or> list_ex (\<lambda>(wid, w). damage_of w \<noteq> None) es))"
proof (induction es arbitrary: c)
  case Nil
  then show ?case by (simp add: rescaled_entries_def)
next
  case (Cons e es)
  obtain wid w where e: "e = (wid, w)" by (cases e)
  from Cons.prems e have rec: "weapon_record w" and def: "damage_defined h k w"
    and rest: "list_all (\<lambda>(wid, w). weapon_record w) es"
    and rest_def: "list_all (\<lambda>(wid, w). damage_defined h k w) es"
    by simp_all
  show ?case
    using Cons.IH [OF rest rest_def] scale_weapon_record [OF rec def]
    by (simp add: e rescaled_entries_def)
qed

lemma is_objectE: "is_object v \<Longrightarrow> (\<And>kvs. v = JObj kvs \<Longrightarrow> P) \<Longrightarrow> P"
  by (cases v) simp_all

lemma scale_field_mapping:
  assumes obj: "is_object d" and wm: "weapon_mapping d f"
    and df: "list_all (\<lambda>(wid, w). damage_defined h k w) (entries_of d f)"
  shows "scale_field h k f d c =
           (concat (map (damage_line h k) (entries_of d f)),
            Inr (rescaled_field h k f d,
                 c \<or> list_ex (\<lambda>(wid, w). damage_of w \<noteq> None) (entries_of d f)))"
proof -
  from obj obtain fields where d: "d = JObj fields" by (rule is_objectE)
  show ?thesis
  proof (cases "map_of fields f")
    case None
    then show ?thesis
      by (simp add: d scale_field_def entries_of_def rescaled_field_def)
  next
    case (Some m)
    with wm d have "is_object m" and recs: "list_all (\<lambda>(wid, w). weapon_record w) (fields_of m)"
      by (simp_all add: weapon_mapping_def)
    then obtain es where m: "m = JObj es" by (auto elim: is_objectE)
    from recs m have r: "list_all (\<lambda>(wid, w). weapon_record w) es" by simp
    from df d m Some have "list_all (\<lambda>(wid, w). damage_defined h k w) es"
      by (simp add: entries_of_def)
    from scale_entries_records [OF r this, of c] Some show ?thesis
      by (simp add: d m scale_field_def entries_of_def rescaled_field_def)
  qed
qed

lemma is_object_rescaled_field: "is_object d \<Longrightarrow> is_object (rescaled_field h k f d)"
  by (auto simp: rescaled_field_def split: option.splits)

lemma fields_rescaled_field_other:
  "g \<noteq> f \<Longrightarrow> map_of (fields_of (rescaled_field h k f d)) g = map_of (fields_of d) g"
  by (auto simp: rescaled_field_def AList.update_conv' split: option.splits)

lemma fields_rescaled_field_same:
  "map_of (fields_of (rescaled_field h k f d)) f =
     map_option (\<lambda>m. JObj (rescaled_entries h k (fields_of m))) (map_of (fields_of d) f)"
  by (auto simp: rescaled_field_def AList.update_conv' split: option.splits)

lemma entries_rescaled_field_other:
  "g \<noteq> f \<Longrightarrow> entries_of (rescaled_field h k f d) g = entries_of d g"
  by (simp add: entries_of_def fields_rescaled_field_other)

lemma entries_rescaled_field_same:
  "entries_of (rescaled_field h k f d) f = rescaled_entries h k (entries_of d f)"
  by (cases "map_of (fields_of d) f")
     (simp_all add: entries_of_def fields_rescaled_field_same rescaled_entries_def)

lemma weapon_mapping_rescaled_field_other:
  "g \<noteq> f \<Longrightarrow> weapon_mapping (rescaled_field h k f d) g = weapon_mapping d g"
  by (simp add: weapon_mapping_def fields_rescaled_field_other)

lemma scale_data_document:
  assumes "weapon_document d" and "products_defined h k d"
  shows "scale_data h k d = (damage_lines h k d, Inr (rescaled h k d, has_damage d))"
proof -
  from assms(1) have obj: "is_object d" and w: "weapon_mapping d ''weapons''"
    and m: "weapon_mapping d ''meleeWeapons''"
    by (simp_all add: weapon_document_def)
  from assms(2) have dw: "list_all (\<lambda>(wid, w). damage_defined h k w) (entries_of d ''weapons'')"
    and dm: "list_all (\<lambda>(wid, w). damage_defined h k w) (entries_of d ''meleeWeapons'')"
    by (simp_all add: products_defined_def)
  let ?d1 = "rescaled_field h k ''weapons'' d"
  have obj1: "is_object ?d1" using obj by (rule is_object_rescaled_field)
  have m1: "weapon_mapping ?d1 ''meleeWeapons''"
    using m by (simp add: weapon_mapping_rescaled_field_other)
  have e1: "entries_of ?d1 ''meleeWeapons'' = entries_of d ''meleeWeapons''"
    by (simp add: entries_rescaled_field_other)
  from dm have dm1: "list_all (\<lambda>(wid, w). damage_defined h k w) (entries_of ?d1 ''meleeWeapons'')"
    by (simp add: e1)
  show ?thesis
    by (simp add: scale_data_def scale_field_mapping [OF obj w dw]
        scale_field_mapping [OF obj1 m1 dm1] e1 damage_lines_def rescaled_def has_damage_def)
qed

lemma preserved_except_refl: "preserved_except keys al al"
  by (simp add: preserved_except_def list_all2_same)

lemma preserved_except_update:
  "map_of al key \<noteq> None \<Longrightarrow> preserved_except [key] al (AList.update key v al)"
proof (induction al)
  case Nil
  then show ?case by simp
next
  case (Cons p ps)
  then show ?case
    using preserved_except_refl [of "[key]" ps]
    by (auto simp: preserved_except_def)
qed

lemma preserved_except_mono:
  "preserved_except keys old new \<Longrightarrow> set keys \<subseteq> set keys' \<Longrightarrow> preserved_except keys' old new"
  unfolding preserved_except_def by (erule list_all2_mono) auto

lemma preserved_except_trans:
  "preserved_except keys a b \<Longrightarrow> preserved_except keys b c \<Longrightarrow> preserved_except keys a c"
  unfolding preserved_except_def
  by (erule (1) list_all2_trans [rotated]) auto

lemma damage_of_rescaled_record:
  "damage_of (rescaled_record h k w) = map_option (times_factor h k) (damage_of w)"
  by (cases "damage_of w") (simp_all add: rescaled_record_def, simp add: damage_of_def AList.update_conv')

lemma numeric_times_factor: "numeric d \<Longrightarrow> numeric (times_factor h k d)"
  by (cases d; cases k) (simp_all add: times_factor_def split: option.splits)

lemma times_factor_int: "times_factor h (PInt k) (JInt i) = JInt (i * k)"
  by (simp add: times_factor_def)

lemma is_object_rescaled_record: "is_object w \<Longrightarrow> is_object (rescaled_record h k w)"
  by (cases "damage_of w") (simp_all add: rescaled_record_def)

lemma weapon_record_rescaled: "weapon_record w \<Longrightarrow> weapon_record (rescaled_record h k w)"
  by (cases "damage_of w")
     (simp_all add: weapon_record_def damage_of_rescaled_record is_object_rescaled_record
        numeric_times_factor)

lemma fields_rescaled_record:
  "preserved_except [''damage''] (fields_of w) (fields_of (rescaled_record h k w))"
proof (cases "damage_of w")
  case None
  then show ?thesis by (simp add: rescaled_record_def preserved_except_refl)
next
  case (Some d)
  then have "map_of (fields_of w) ''damage'' \<noteq> None" by (simp add: damage_of_def)
  from preserved_except_update [OF this] Some show ?thesis
    by (simp add: rescaled_record_def)
qed

lemma weapon_document_entries:
  assumes "weapon_document d" and "f = ''weapons'' \<or> f = ''meleeWeapons''"
  shows "list_all (\<lambda>(wid, w). weapon_record w) (entries_of d f)"
  using assms
  by (auto simp: weapon_document_def weapon_mapping_def entries_of_def split: option.splits)

lemma entries_rescaled:
  assumes "f = ''weapons'' \<or> f = ''meleeWeapons''"
  shows "entries_of (rescaled h k d) f = rescaled_entries h k (entries_of d f)"
  using assms
  by (auto simp: rescaled_def entries_rescaled_field_other entries_rescaled_field_same)

lemma weapon_mapping_rescaled_field_same:
  "weapon_mapping d f \<Longrightarrow> weapon_mapping (rescaled_field h k f d) f"
  by (cases "map_of (fields_of d) f")
     (auto simp: weapon_mapping_def fields_rescaled_field_same rescaled_entries_def
        list_all_iff weapon_record_rescaled)

lemma weapon_document_rescaled: "weapon_document d \<Longrightarrow> weapon_document (rescaled h k d)"
  by (simp add: weapon_document_def rescaled_def is_object_rescaled_field
      weapon_mapping_rescaled_field_other weapon_mapping_rescaled_field_same)

lemma list_ex_damage_rescaled:
  "list_ex (\<lambda>(wid, w). damage_of w \<noteq> None) (rescaled_entries h k es) =
   list_ex (\<lambda>(wid, w). damage_of w \<noteq> None) es"
  by (induction es) (auto simp: rescaled_entries_def damage_of_rescaled_record)

lemma has_damage_rescaled: "has_damage (rescaled h k d) = has_damage d"
  unfolding has_damage_def
  by (simp only: entries_rescaled [OF disjI1 [OF refl]] entries_rescaled [OF disjI2 [OF refl]]
      list_ex_damage_rescaled)

lemma damages_rescaled_entries:
  assumes "list_all (\<lambda>(wid, w). damage_defined h k w) es"
  shows "map (\<lambda>(wid, w). (wid, map_option Inr (damage_of w))) (rescaled_entries h k es) =
         map (\<lambda>(wid, w). (wid, map_option (\<lambda>d. py_mul h d k) (damage_of w))) es"
  using assms
proof (induction es)
  case Nil
  then show ?case by (simp add: rescaled_entries_def)
next
  case (Cons e es)
  obtain wid w where e: "e = (wid, w)" by (cases e)
  with Cons.prems have "damage_defined h k w" by simp
  then have "map_option Inr (damage_of (rescaled_record h k w)) =
             map_option (\<lambda>d. py_mul h d k) (damage_of w)"
    by (cases "damage_of w")
       (simp_all add: damage_of_rescaled_record damage_defined_def py_mul_defined)
  with Cons show ?case by (simp add: e rescaled_entries_def)
qed

lemma products_defined_entries:
  assumes "products_defined h k d" and "f = ''weapons'' \<or> f = ''meleeWeapons''"
  shows "list_all (\<lambda>(wid, w). damage_defined h k w) (entries_of d f)"
  using assms by (auto simp: products_defined_def)

lemma integral_products_defined:
  assumes "integral_damage d"
  shows "products_defined h (PInt k) d"
proof -
  have "damage_defined h (PInt k) w"
    if "case damage_of w of None \<Rightarrow> True | Some d \<Rightarrow> integral d" for w :: "'a json"
  proof (cases "damage_of w")
    case None
    then show ?thesis by (simp add: damage_defined_def)
  next
    case (Some v)
    with that have "integral v" by simp
    then obtain i where "v = JInt i" by (cases v) simp_all
    with Some show ?thesis by (simp add: damage_defined_def product_defined_def)
  qed
  with assms show ?thesis
    unfolding integral_damage_def products_defined_def
    by (auto simp: list_all_iff)
qed

subsection \<open>Claims about \<open>scale_data\<close>\<close>

text \<open>
  C1, as amended. On every weapon document and for every factor, an int or a float,
  such that no product \<open>damage * factor\<close> raises, the loops of \<open>scale_weapon_damage\<close>
  end without an exception and leave the document that the specification describes; in
  each of the two mappings \<open>weapons\<close> and \<open>meleeWeapons\<close> the entries keep their
  identifiers and their order, and the \<open>damage\<close> of each entry that has one is the old
  \<open>damage\<close> multiplied by the factor, once. No product raises where every \<open>damage\<close> and
  the factor are ints. (A product raises where an int too large for a float meets a
  float: see the run with factor \<open>10^400\<close> below.)
\<close>

theorem scale_data_multiplies_each_damage_once:
  assumes "weapon_document data" and "field = ''weapons'' \<or> field = ''meleeWeapons''"
  shows "(products_defined h factor data \<longrightarrow>
            scale_data h factor data =
              (damage_lines h factor data, Inr (rescaled h factor data, has_damage data)) \<and>
            map (\<lambda>(weapon_id, weapon). (weapon_id, map_option Inr (damage_of weapon)))
                (entries_of (rescaled h factor data) field) =
            map (\<lambda>(weapon_id, weapon).
                   (weapon_id, map_option (\<lambda>d. py_mul h d factor) (damage_of weapon)))
                (entries_of data field)) \<and>
         (integral_damage data \<longrightarrow> products_defined h (PInt k) data)"
proof (intro conjI impI)
  assume pd: "products_defined h factor data"
  show "scale_data h factor data =
              (damage_lines h factor data, Inr (rescaled h factor data, has_damage data))"
    using assms(1) pd by (rule scale_data_document)
  show "map (\<lambda>(weapon_id, weapon). (weapon_id, map_option Inr (damage_of weapon)))
                (entries_of (rescaled h factor data) field) =
            map (\<lambda>(weapon_id, weapon).
                   (weapon_id, map_option (\<lambda>d. py_mul h d factor) (damage_of weapon)))
                (entries_of data field)"
    using damages_rescaled_entries [OF products_defined_entries [OF pd assms(2)]] assms(2)
    by (simp add: entries_rescaled)
next
  assume "integral_damage data"
  then show "products_defined h (PInt k) data" by (rule integral_products_defined)
qed

lemma weapon_document_pistol: "weapon_document (pistol_doc d)"
  by (simp add: pistol_doc_def weapon_document_def weapon_mapping_def weapon_record_def
      damage_of_def)

lemma integral_damage_pistol: "integral_damage (pistol_doc d)"
  by (simp add: pistol_doc_def integral_damage_def entries_of_def damage_of_def)

lemma weapon_document_laser: "weapon_document (laser_doc x)"
  by (simp add: laser_doc_def weapon_document_def weapon_mapping_def weapon_record_def
      damage_of_def)

lemma str_nat_10: "str_nat 10 = ''10''"
  by (simp add: str_nat.simps digit_def)

lemma str_nat_50: "str_nat 50 = ''50''"
  by (simp add: str_nat.simps digit_def)

lemma str_nat_250: "str_nat 250 = ''250''"
  by (simp add: str_nat.simps digit_def)

lemma scale_pistol:
  "scale_data sample_host (PInt k) (pistol_doc d) =
     ([''  pistol: '' @ str_int d @ '' -> '' @ str_int (d * k)], Inr (pistol_doc (d * k), True))"
  by (simp add: pistol_doc_def scale_data_def scale_field_def scale_weapon_def sample_host_def)

lemma double_of_int_10: "double_of_int 10 = Some (Finite False 5 1)"
  by (simp add: double_of_int_def round_double_def Let_def bit_length.simps strip_zeros.simps)

lemma mul_10_25: "double_mul (Finite False 5 1) (Finite False 5 (- 1)) = Finite False 25 0"
  by (simp add: round_double_def round_shift_def Let_def bit_length.simps strip_zeros.simps)

lemma scale_pistol_float:
  "snd (scale_data sample_host (PFloat y) (pistol_doc d)) =
     (case double_of_int d of
        None \<Rightarrow> Inl OverflowError
      | Some x \<Rightarrow>
          Inr (JObj [(''weapons'', JObj [(''pistol'', JObj [(''damage'', JFloat (double_mul x y))])])],
               True))"
  by (simp add: pistol_doc_def scale_data_def scale_field_def scale_weapon_def sample_host_def
      split: option.splits)

text \<open>
  The example of the specification, 10 with factor 5, and the same document with the
  float factor 2.5, which is \<open>5 * 2^-1\<close>: the \<open>damage\<close> becomes the float 25.0.
\<close>

theorem scale_data_pistol:
  "weapon_document (pistol_doc 10) \<and> integral_damage (pistol_doc 10) \<and>
   products_defined sample_host (PInt 5) (pistol_doc 10) \<and>
   scale_data sample_host (PInt 5) (pistol_doc 10) =
     ([''  pistol: 10 -> 50''], Inr (pistol_doc 50, True)) \<and>
   rescaled sample_host (PInt 5) (pistol_doc 10) = pistol_doc 50 \<and>
   products_defined sample_host (PFloat (Finite False 5 (- 1))) (pistol_doc 10) \<and>
   snd (scale_data sample_host (PFloat (Finite False 5 (- 1))) (pistol_doc 10)) =
     Inr (JObj [(''weapons'', JObj [(''pistol'', JObj [(''damage'', JFloat (Finite False 25 0))])])],
          True) \<and>
   rescaled sample_host (PFloat (Finite False 5 (- 1))) (pistol_doc 10) =
     JObj [(''weapons'', JObj [(''pistol'', JObj [(''damage'', JFloat (Finite False 25 0))])])]"
proof -
  note t = scale_data_multiplies_each_damage_once
    [OF weapon_document_pistol [of 10] disjI1 [OF refl],
      where h = sample_host and factor = "PInt 5" and k = 5]
  from t integral_damage_pistol have pd: "products_defined sample_host (PInt 5) (pistol_doc 10)"
    by blast
  have a: "scale_data sample_host (PInt 5) (pistol_doc 10) =
     ([''  pistol: 10 -> 50''], Inr (pistol_doc 50, True))"
    by (simp add: scale_pistol str_int_def str_nat_10 str_nat_50)
  from t pd have "scale_data sample_host (PInt 5) (pistol_doc 10) =
      (damage_lines sample_host (PInt 5) (pistol_doc 10),
       Inr (rescaled sample_host (PInt 5) (pistol_doc 10), has_damage (pistol_doc 10)))"
    by blast
  with a have b: "rescaled sample_host (PInt 5) (pistol_doc 10) = pistol_doc 50" by simp
  note u = scale_data_multiplies_each_damage_once
    [OF weapon_document_pistol [of 10] disjI1 [OF refl],
      where h = sample_host and factor = "PFloat (Finite False 5 (- 1))" and k = 5]
  have pf: "products_defined sample_host (PFloat (Finite False 5 (- 1))) (pistol_doc 10)"
    by (simp add: products_defined_def damage_defined_def product_defined_def pistol_doc_def
        entries_of_def damage_of_def sample_host_def double_of_int_10)
  have c: "snd (scale_data sample_host (PFloat (Finite False 5 (- 1))) (pistol_doc 10)) =
     Inr (JObj [(''weapons'', JObj [(''pistol'', JObj [(''damage'', JFloat (Finite False 25 0))])])],
          True)"
    by (simp only: scale_pistol_float double_of_int_10 mul_10_25 option.case)
  from u pf have "scale_data sample_host (PFloat (Finite False 5 (- 1))) (pistol_doc 10) =
      (damage_lines sample_host (PFloat (Finite False 5 (- 1))) (pistol_doc 10),
       Inr (rescaled sample_host (PFloat (Finite False 5 (- 1))) (pistol_doc 10),
            has_damage (pistol_doc 10)))"
    by blast
  with c have d: "rescaled sample_host (PFloat (Finite False 5 (- 1))) (pistol_doc 10) =
     JObj [(''weapons'', JObj [(''pistol'', JObj [(''damage'', JFloat (Finite False 25 0))])])]"
    by simp
  from weapon_document_pistol integral_damage_pistol pd a b pf c d show ?thesis by blast
qed

lemma double_of_int_huge: "double_of_int (10 ^ 400) = None"
  by (simp add: double_of_int_def)

text \<open>
  The claim C1 as the specification states it (every weapon document and every factor)
  fails where the \<open>damage\<close> is the float 1.5 and the factor the int \<open>10^400\<close>: the
  product raises OverflowError in the first iteration, and no document is returned.
\<close>

theorem scale_data_overflow:
  "weapon_document (laser_doc (Finite False 3 (- 1))) \<and>
   scale_data sample_host (PInt (10 ^ 400)) (laser_doc (Finite False 3 (- 1))) =
     ([], Inl OverflowError)"
proof -
  have "scale_data sample_host (PInt (10 ^ 400)) (laser_doc (Finite False 3 (- 1))) =
     ([], Inl OverflowError)"
    by (simp add: laser_doc_def scale_data_def scale_field_def scale_weapon_def sample_host_def
        double_of_int_huge del: power_numeral)
  with weapon_document_laser show ?thesis by blast
qed

lemma times_factor_twice_integral:
  "integral d \<Longrightarrow>
   times_factor h (PInt k) (times_factor h (PInt k) d) = times_factor h (PInt (k * k)) d"
  by (cases d) (simp_all add: times_factor_def mult.assoc)

lemma rescaled_record_twice:
  assumes "case damage_of w of None \<Rightarrow> True | Some d \<Rightarrow> integral d"
  shows "rescaled_record h (PInt k) (rescaled_record h (PInt k) w) =
         rescaled_record h (PInt (k * k)) w"
proof (cases "damage_of w")
  case None
  then show ?thesis by (simp add: rescaled_record_def)
next
  case (Some d)
  with assms have "integral d" by simp
  then have t: "times_factor h (PInt k) (times_factor h (PInt k) d) =
      times_factor h (PInt (k * k)) d"
    by (rule times_factor_twice_integral)
  have "damage_of (rescaled_record h (PInt k) w) = Some (times_factor h (PInt k) d)"
    by (simp add: damage_of_rescaled_record Some)
  then show ?thesis
    using Some t by (simp add: rescaled_record_def [of h "PInt k" "rescaled_record h (PInt k) w"])
       (simp add: rescaled_record_def)
qed

lemma rescaled_entries_twice:
  assumes "list_all (\<lambda>(wid, w). case damage_of w of None \<Rightarrow> True | Some d \<Rightarrow> integral d) es"
  shows "rescaled_entries h (PInt k) (rescaled_entries h (PInt k) es) = rescaled_entries h (PInt (k * k)) es"
  using assms
  by (induction es) (auto simp: rescaled_entries_def rescaled_record_twice)

lemma rescaled_field_twice:
  assumes "list_all (\<lambda>(wid, w). case damage_of w of None \<Rightarrow> True | Some d \<Rightarrow> integral d)
             (entries_of d f)"
  shows "rescaled_field h (PInt k) f (rescaled_field h (PInt k) f d) = rescaled_field h (PInt (k * k)) f d"
proof (cases "map_of (fields_of d) f")
  case None
  then show ?thesis by (simp add: rescaled_field_def)
next
  case (Some m)
  with assms have "rescaled_entries h (PInt k) (rescaled_entries h (PInt k) (fields_of m)) =
      rescaled_entries h (PInt (k * k)) (fields_of m)"
    by (simp add: entries_of_def rescaled_entries_twice)
  with Some show ?thesis
    by (simp add: rescaled_field_def AList.update_conv')
qed

lemma update_commute_present:
  "k \<noteq> k' \<Longrightarrow> map_of al k \<noteq> None \<Longrightarrow> map_of al k' \<noteq> None \<Longrightarrow>
   AList.update k v (AList.update k' v' al) = AList.update k' v' (AList.update k v al)"
proof (induction al)
  case Nil
  then show ?case by simp
next
  case (Cons p ps)
  then show ?case
    by (cases "fst p = k"; cases "fst p = k'"; cases p) auto
qed

lemma rescaled_field_commute:
  assumes "f \<noteq> g"
  shows "rescaled_field h k f (rescaled_field h k' g d) =
         rescaled_field h k' g (rescaled_field h k f d)"
proof (cases "map_of (fields_of d) f")
  case None
  then show ?thesis
    using assms by (simp add: rescaled_field_def [of h k f] fields_rescaled_field_other)
next
  case F: (Some m)
  show ?thesis
  proof (cases "map_of (fields_of d) g")
    case None
    then show ?thesis
      using assms by (simp add: rescaled_field_def [of h k' g] fields_rescaled_field_other)
  next
    case G: (Some m')
    from F G assms show ?thesis
      by (simp add: rescaled_field_def AList.update_conv' update_commute_present)
  qed
qed

lemma rescaled_twice:
  assumes "integral_damage d"
  shows "rescaled h (PInt k) (rescaled h (PInt k) d) = rescaled h (PInt (k * k)) d"
proof -
  let ?W = "''weapons''" and ?M = "''meleeWeapons''"
  from assms have w: "list_all (\<lambda>(wid, w). case damage_of w of None \<Rightarrow> True | Some d \<Rightarrow> integral d)
             (entries_of d ?W)"
    and m: "list_all (\<lambda>(wid, w). case damage_of w of None \<Rightarrow> True | Some d \<Rightarrow> integral d)
             (entries_of d ?M)"
    by (simp_all add: integral_damage_def)
  have ne: "?W \<noteq> ?M" by simp
  have m': "list_all (\<lambda>(wid, w). case damage_of w of None \<Rightarrow> True | Some d \<Rightarrow> integral d)
             (entries_of (rescaled_field h (PInt (k * k)) ?W d) ?M)"
    using m by (simp add: entries_rescaled_field_other)
  have "rescaled h (PInt k) (rescaled h (PInt k) d) =
        rescaled_field h (PInt k) ?M (rescaled_field h (PInt k) ?W (rescaled_field h (PInt k) ?M (rescaled_field h (PInt k) ?W d)))"
    by (simp add: rescaled_def)
  also have "\<dots> =
        rescaled_field h (PInt k) ?M (rescaled_field h (PInt k) ?M (rescaled_field h (PInt k) ?W (rescaled_field h (PInt k) ?W d)))"
    by (simp only: rescaled_field_commute [OF ne])
  also have "\<dots> = rescaled_field h (PInt k) ?M (rescaled_field h (PInt k) ?M (rescaled_field h (PInt (k * k)) ?W d))"
    by (simp only: rescaled_field_twice [OF w])
  also have "\<dots> = rescaled_field h (PInt (k * k)) ?M (rescaled_field h (PInt (k * k)) ?W d)"
    by (rule rescaled_field_twice [OF m'])
  finally show ?thesis by (simp add: rescaled_def)
qed

lemma list_all2_map_same:
  "(\<And>e. e \<in> set es \<Longrightarrow> P e (g e)) \<Longrightarrow> list_all2 P es (map g es)"
  by (simp add: list_all2_map2 list_all2_same)

lemma damages_rescaled_twice:
  "list_all2 (\<lambda>(wid, w) (wid2, w2). wid2 = wid \<and>
       (\<forall>i. damage_of w = Some (JInt i) \<longrightarrow> damage_of w2 = Some (JInt (i * f * f))))
     es (rescaled_entries h (PInt f) (rescaled_entries h (PInt f) es))"
  unfolding rescaled_entries_def map_map
  by (rule list_all2_map_same) (auto simp: damage_of_rescaled_record times_factor_int)

lemma integral_damage_rescaled:
  assumes "integral_damage d"
  shows "integral_damage (rescaled h (PInt k) d)"
proof -
  have "case damage_of (rescaled_record h (PInt k) w) of None \<Rightarrow> True | Some d \<Rightarrow> integral d"
    if "case damage_of w of None \<Rightarrow> True | Some d \<Rightarrow> integral d" for w :: "'a json"
  proof (cases "damage_of w")
    case None
    then show ?thesis by (simp add: damage_of_rescaled_record)
  next
    case (Some v)
    with that have "integral v" by simp
    then obtain i where "v = JInt i" by (cases v) simp_all
    with Some show ?thesis by (simp add: damage_of_rescaled_record times_factor_int)
  qed
  with assms show ?thesis
    unfolding integral_damage_def
    by (auto simp: entries_rescaled rescaled_entries_def list_all_iff)
qed

text \<open>
  C4, as amended. Rescaling is not idempotent. On every weapon document whose \<open>damage\<close>
  values are all ints, and for every int factor \<open>f\<close>, a run with \<open>f\<close> followed by a
  second run with \<open>f\<close> on its result returns, every \<open>damage\<close> \<open>d\<close> has become
  \<open>d * f * f\<close> (with \<open>f = 5\<close>: 10, then 50, then 250), and the document after the two
  runs is the one a single run with factor \<open>f * f\<close> leaves. (With a float the two runs
  round twice and the single run once: see the runs on the damage 1.1 below.)
\<close>

theorem scale_data_twice:
  assumes "weapon_document data" and "integral_damage data"
  shows "\<exists>out1 data1 c1 out2 data2 c2 out3 c3.
     scale_data h (PInt f) data = (out1, Inr (data1, c1)) \<and>
     scale_data h (PInt f) data1 = (out2, Inr (data2, c2)) \<and>
     scale_data h (PInt (f * f)) data = (out3, Inr (data2, c3)) \<and>
     (\<forall>field \<in> {''weapons'', ''meleeWeapons''}.
        list_all2 (\<lambda>(weapon_id, weapon) (weapon_id2, weapon2). weapon_id2 = weapon_id \<and>
            (\<forall>d. damage_of weapon = Some (JInt d) \<longrightarrow>
                 damage_of weapon2 = Some (JInt (d * f * f))))
          (entries_of data field) (entries_of data2 field))"
proof -
  let ?d1 = "rescaled h (PInt f) data"
  let ?d2 = "rescaled h (PInt f) (rescaled h (PInt f) data)"
  have wd1: "weapon_document ?d1" using assms(1) by (rule weapon_document_rescaled)
  have id1: "integral_damage ?d1" using assms(2) by (rule integral_damage_rescaled)
  note pd = integral_products_defined [OF assms(2), of h]
  note pd1 = integral_products_defined [OF id1, of h f]
  have a: "scale_data h (PInt f) data = (damage_lines h (PInt f) data, Inr (?d1, has_damage data))"
    by (rule scale_data_document [OF assms(1) pd])
  have b: "scale_data h (PInt f) ?d1 =
             (damage_lines h (PInt f) ?d1, Inr (?d2, has_damage ?d1))"
    by (rule scale_data_document [OF wd1 pd1])
  have c: "scale_data h (PInt (f * f)) data =
             (damage_lines h (PInt (f * f)) data, Inr (?d2, has_damage data))"
    by (simp add: scale_data_document [OF assms(1) pd] rescaled_twice [OF assms(2)])
  have d: "\<forall>field \<in> {''weapons'', ''meleeWeapons''}.
        list_all2 (\<lambda>(weapon_id, weapon) (weapon_id2, weapon2). weapon_id2 = weapon_id \<and>
            (\<forall>d. damage_of weapon = Some (JInt d) \<longrightarrow>
                 damage_of weapon2 = Some (JInt (d * f * f))))
          (entries_of data field) (entries_of ?d2 field)"
    by (simp add: entries_rescaled damages_rescaled_twice)
  from a b c d show ?thesis by blast
qed

theorem scale_data_twice_pistol:
  "weapon_document (pistol_doc 10) \<and> integral_damage (pistol_doc 10) \<and>
   scale_data sample_host (PInt 5) (pistol_doc 10) =
     ([''  pistol: 10 -> 50''], Inr (pistol_doc 50, True)) \<and>
   scale_data sample_host (PInt 5) (pistol_doc 50) =
     ([''  pistol: 50 -> 250''], Inr (pistol_doc 250, True)) \<and>
   scale_data sample_host (PInt (5 * 5)) (pistol_doc 10) =
     ([''  pistol: 10 -> 250''], Inr (pistol_doc 250, True))"
proof -
  note t = scale_data_twice [OF weapon_document_pistol [of 10] integral_damage_pistol [of 10],
      where h = sample_host and f = 5]
  have a: "scale_data sample_host (PInt 5) (pistol_doc 10) =
     ([''  pistol: 10 -> 50''], Inr (pistol_doc 50, True))"
    by (simp add: scale_pistol str_int_def str_nat_10 str_nat_50)
  have b: "scale_data sample_host (PInt 5) (pistol_doc 50) =
     ([''  pistol: 50 -> 250''], Inr (pistol_doc 250, True))"
    by (simp add: scale_pistol str_int_def str_nat_50 str_nat_250)
  have c: "scale_data sample_host (PInt (5 * 5)) (pistol_doc 10) =
     ([''  pistol: 10 -> 250''], Inr (pistol_doc 250, True))"
    by (simp add: scale_pistol str_int_def str_nat_10 str_nat_250)
  from t weapon_document_pistol integral_damage_pistol a b c show ?thesis by blast
qed

lemma scale_laser:
  "snd (scale_data sample_host (PInt k) (laser_doc x)) =
     (case double_of_int k of
        None \<Rightarrow> Inl OverflowError
      | Some y \<Rightarrow> Inr (laser_doc (double_mul x y), True))"
  by (simp add: laser_doc_def scale_data_def scale_field_def scale_weapon_def sample_host_def
      split: option.splits)

lemma double_of_int_5: "double_of_int 5 = Some (Finite False 5 0)"
  by (simp add: double_of_int_def round_double_def Let_def bit_length.simps strip_zeros.simps)

lemma double_of_int_25: "double_of_int 25 = Some (Finite False 25 0)"
  by (simp add: double_of_int_def round_double_def Let_def bit_length.simps strip_zeros.simps)

lemma mul_11_5:
  "double_mul (Finite False 2476979795053773 (- 51)) (Finite False 5 0) = Finite False 11 (- 1)"
  by (simp add: round_double_def round_shift_def Let_def bit_length.simps strip_zeros.simps)

lemma mul_55_5: "double_mul (Finite False 11 (- 1)) (Finite False 5 0) = Finite False 55 (- 1)"
  by (simp add: round_double_def round_shift_def Let_def bit_length.simps strip_zeros.simps)

lemma mul_11_25:
  "double_mul (Finite False 2476979795053773 (- 51)) (Finite False 25 0) =
     Finite False 7740561859543041 (- 48)"
  by (simp add: round_double_def round_shift_def Let_def bit_length.simps strip_zeros.simps)

text \<open>
  The claim C4 as the specification states it (every \<open>damage\<close> value) fails on the float
  1.1 with factor 5: the first run gives 5.5, the second 27.5, and a single run with
  factor 25 gives the next double, 27.500000000000004.
\<close>

theorem scale_data_twice_float:
  "snd (scale_data sample_host (PInt 5) (laser_doc (Finite False 2476979795053773 (- 51)))) =
     Inr (laser_doc (Finite False 11 (- 1)), True) \<and>
   snd (scale_data sample_host (PInt 5) (laser_doc (Finite False 11 (- 1)))) =
     Inr (laser_doc (Finite False 55 (- 1)), True) \<and>
   snd (scale_data sample_host (PInt (5 * 5)) (laser_doc (Finite False 2476979795053773 (- 51)))) =
     Inr (laser_doc (Finite False 7740561859543041 (- 48)), True) \<and>
   laser_doc (Finite False 55 (- 1)) \<noteq> laser_doc (Finite False 7740561859543041 (- 48))"
proof -
  have a: "snd (scale_data sample_host (PInt 5)
                  (laser_doc (Finite False 2476979795053773 (- 51)))) =
     Inr (laser_doc (Finite False 11 (- 1)), True)"
    by (simp only: scale_laser double_of_int_5 mul_11_5 option.case)
  have b: "snd (scale_data sample_host (PInt 5) (laser_doc (Finite False 11 (- 1)))) =
     Inr (laser_doc (Finite False 55 (- 1)), True)"
    by (simp only: scale_laser double_of_int_5 mul_55_5 option.case)
  have "(5 :: int) * 5 = 25" by simp
  then have c: "snd (scale_data sample_host (PInt (5 * 5))
                  (laser_doc (Finite False 2476979795053773 (- 51)))) =
     Inr (laser_doc (Finite False 7740561859543041 (- 48)), True)"
    by (simp only: scale_laser double_of_int_25 mul_11_25 option.case)
  have d: "laser_doc (Finite False 55 (- 1)) \<noteq> laser_doc (Finite False 7740561859543041 (- 48))"
    by (simp add: laser_doc_def)
  from a b c d show ?thesis by blast
qed

subsection \<open>Claims about \<open>scale_weapon_damage\<close>\<close>

lemma open_read_node:
  "open_read fs p = Inr text \<Longrightarrow> \<exists>w. map_of fs p = Some (FFile text None w)"
  by (auto simp: open_read_def split: option.splits fnode.splits)

lemma open_write_readable:
  assumes "open_read fs p = Inr text"
  shows "open_write fs p new_text =
           (case write_raises fs p of
              Some e \<Rightarrow> Inl e
            | None \<Rightarrow> Inr (AList.update p (FFile new_text None None) fs))"
proof -
  from open_read_node [OF assms] obtain w where "map_of fs p = Some (FFile text None w)" ..
  then show ?thesis
    by (cases w) (simp_all add: open_write_def write_raises_def)
qed

lemma scale_weapon_damage_document:
  assumes "open_read fs file_path = Inr text" and "loads h text = Inr data"
    and "weapon_document data" and "products_defined h factor data"
  shows "scale_weapon_damage h fs file_path factor =
           (if has_damage data
            then (case write_raises fs file_path of
                    None \<Rightarrow>
                      (AList.update file_path
                         (FFile (dumps h (rescaled h factor data)) None None) fs,
                       [''Processing '' @ file_path @ ''...''] @ damage_lines h factor data
                         @ [''  Updated '' @ file_path],
                       Inr True)
                  | Some e \<Rightarrow>
                      (fs,
                       [''Processing '' @ file_path @ ''...''] @ damage_lines h factor data,
                       Inl e))
            else (fs,
                  [''Processing '' @ file_path @ ''...''] @ damage_lines h factor data
                    @ [''  No damage values found in '' @ file_path],
                  Inr False))"
  using assms(1,2) scale_data_document [OF assms(3,4)] open_write_readable [OF assms(1)]
  by (simp add: scale_weapon_damage_def split: option.splits)

lemma damage_line_none: "damage_of (snd e) = None \<Longrightarrow> damage_line h k e = []"
  by (simp add: damage_line_def)

lemma damage_lines_none: "\<not> has_damage data \<Longrightarrow> damage_lines h k data = []"
  by (auto simp: has_damage_def damage_lines_def list_ex_iff damage_line_def split: option.splits)

lemma has_damage_iff:
  "has_damage data \<longleftrightarrow>
     (\<exists>(weapon_id, weapon) \<in> set (entries_of data ''weapons'') \<union> set (entries_of data ''meleeWeapons'').
        damage_of weapon \<noteq> None)"
  by (auto simp: has_damage_def list_ex_iff)

text \<open>
  C9. On a file that holds a weapon document, with a factor for which no product raises
  and with the file open to writing, \<open>scale_weapon_damage\<close> returns, and it returns
  \<open>True\<close> exactly when some entry of \<open>weapons\<close> or of \<open>meleeWeapons\<close> has a \<open>damage\<close>
  key, whatever the new value is; it writes the file exactly then. The closed instance
  is a document whose only \<open>damage\<close> is 0: it is reported as changed and written back.
\<close>

theorem changed_iff_damage_key:
  assumes "open_read fs file_path = Inr text" and "loads h text = Inr data"
    and "weapon_document data" and "products_defined h factor data"
    and "write_raises fs file_path = None"
  shows "\<exists>fs' out changed.
     scale_weapon_damage h fs file_path factor = (fs', out, Inr changed) \<and>
     (changed \<longleftrightarrow>
        (\<exists>(weapon_id, weapon) \<in> set (entries_of data ''weapons'') \<union> set (entries_of data ''meleeWeapons'').
           damage_of weapon \<noteq> None)) \<and>
     (if changed
      then \<exists>data'. fs' = AList.update file_path (FFile (dumps h data') None None) fs
      else fs' = fs)"
  using scale_weapon_damage_document [OF assms(1-4)] assms(5) has_damage_iff [of data]
  by (cases "has_damage data") auto

lemma loads_fist: "loads sample_host fist_text = Inr fist_doc"
  by (simp add: sample_host_def sample_texts_def fist_text_def pistol_text_def)

lemma weapon_document_fist: "weapon_document fist_doc"
  by (simp add: fist_doc_def weapon_document_def weapon_mapping_def weapon_record_def
      damage_of_def)

lemma integral_damage_fist: "integral_damage fist_doc"
  by (simp add: fist_doc_def integral_damage_def entries_of_def damage_of_def)

lemma str_nat_0: "str_nat 0 = ''0''"
  by (simp add: str_nat.simps digit_def)

lemma scale_fist:
  "scale_data sample_host (PInt 5) fist_doc = ([''  fist: 0 -> 0''], Inr (fist_doc, True))"
  by (simp add: fist_doc_def scale_data_def scale_field_def scale_weapon_def
      sample_host_def str_int_def str_nat_0)

theorem changed_zero_damage:
  "open_read [(''melee-weapons.json'', FFile fist_text None None)] ''melee-weapons.json''
     = Inr fist_text \<and>
   loads sample_host fist_text = Inr fist_doc \<and> weapon_document fist_doc \<and>
   products_defined sample_host (PInt 5) fist_doc \<and>
   write_raises [(''melee-weapons.json'', FFile fist_text None None)] ''melee-weapons.json'' = None \<and>
   scale_weapon_damage sample_host [(''melee-weapons.json'', FFile fist_text None None)]
       ''melee-weapons.json'' (PInt 5) =
     ([(''melee-weapons.json'', FFile (dumps sample_host fist_doc) None None)],
      [''Processing melee-weapons.json...'', ''  fist: 0 -> 0'', ''  Updated melee-weapons.json''],
      Inr True)"
proof -
  let ?fs = "[(''melee-weapons.json'', FFile fist_text None None)]"
  have o: "open_read ?fs ''melee-weapons.json'' = Inr fist_text"
    by (simp add: open_read_def)
  have w: "write_raises ?fs ''melee-weapons.json'' = None"
    by (simp add: write_raises_def)
  note pd = integral_products_defined [OF integral_damage_fist, of sample_host 5]
  have r: "scale_weapon_damage sample_host ?fs ''melee-weapons.json'' (PInt 5) =
     ([(''melee-weapons.json'', FFile (dumps sample_host fist_doc) None None)],
      [''Processing melee-weapons.json...'', ''  fist: 0 -> 0'', ''  Updated melee-weapons.json''],
      Inr True)"
    by (simp add: scale_weapon_damage_def o loads_fist scale_fist open_write_def)
  from changed_iff_damage_key [OF o loads_fist weapon_document_fist pd w] o loads_fist
    weapon_document_fist pd w r
  show ?thesis by blast
qed

lemma fields_rescaled_field:
  "preserved_except [f] (fields_of d) (fields_of (rescaled_field h k f d))"
proof (cases "map_of (fields_of d) f")
  case None
  then show ?thesis by (simp add: rescaled_field_def preserved_except_refl)
next
  case (Some m)
  then have "map_of (fields_of d) f \<noteq> None" by simp
  from preserved_except_update [OF this] Some show ?thesis
    by (simp add: rescaled_field_def)
qed

lemma fields_rescaled:
  "preserved_except [''weapons'', ''meleeWeapons''] (fields_of d) (fields_of (rescaled h k d))"
proof -
  have "preserved_except [''weapons'', ''meleeWeapons''] (fields_of d)
          (fields_of (rescaled_field h k ''weapons'' d))"
    by (rule preserved_except_mono [OF fields_rescaled_field]) simp
  moreover have "preserved_except [''weapons'', ''meleeWeapons'']
          (fields_of (rescaled_field h k ''weapons'' d)) (fields_of (rescaled h k d))"
    unfolding rescaled_def
    by (rule preserved_except_mono [OF fields_rescaled_field]) simp
  ultimately show ?thesis by (rule preserved_except_trans)
qed

lemma records_rescaled_entries:
  "list_all2 (\<lambda>(wid, w) (wid', w'). wid' = wid \<and>
       preserved_except [''damage''] (fields_of w) (fields_of w'))
     es (rescaled_entries h k es)"
  unfolding rescaled_entries_def
  by (rule list_all2_map_same) (auto simp: fields_rescaled_record)

text \<open>
  C6. On a file that holds a weapon document, with a factor for which no product raises:
  when no entry of \<open>weapons\<close> or of \<open>meleeWeapons\<close> has a \<open>damage\<close> key, the files are
  exactly as before and the function reports and returns no change; otherwise, the file
  being open to writing, it receives the dump of a document with the same top-level keys
  in the same order and the same value at every key but the two mappings, whose entries
  keep their identifiers and order, each record keeping its keys in order and every value
  but \<open>damage\<close>; and where the file cannot be opened for writing the exception leaves the
  function and the files are exactly as before.
\<close>

theorem rewrite_only_if_changed:
  assumes "open_read fs file_path = Inr text" and "loads h text = Inr data"
    and "weapon_document data" and "products_defined h factor data"
  shows "if list_ex (\<lambda>(weapon_id, weapon). damage_of weapon \<noteq> None)
              (entries_of data ''weapons'' @ entries_of data ''meleeWeapons'')
         then (case write_raises fs file_path of
                 None \<Rightarrow>
                   \<exists>data' out.
                     scale_weapon_damage h fs file_path factor =
                       (AList.update file_path (FFile (dumps h data') None None) fs, out,
                        Inr True) \<and>
                     preserved_except [''weapons'', ''meleeWeapons'']
                       (fields_of data) (fields_of data') \<and>
                     (\<forall>field \<in> {''weapons'', ''meleeWeapons''}.
                        list_all2 (\<lambda>(weapon_id, weapon) (weapon_id', weapon').
                            weapon_id' = weapon_id \<and>
                            preserved_except [''damage''] (fields_of weapon) (fields_of weapon'))
                          (entries_of data field) (entries_of data' field))
               | Some e \<Rightarrow>
                   \<exists>out. scale_weapon_damage h fs file_path factor = (fs, out, Inl e))
         else scale_weapon_damage h fs file_path factor =
                (fs,
                 [''Processing '' @ file_path @ ''...'', ''  No damage values found in '' @ file_path],
                 Inr False)"
proof (cases "has_damage data")
  case True
  have "\<forall>field \<in> {''weapons'', ''meleeWeapons''}.
          list_all2 (\<lambda>(weapon_id, weapon) (weapon_id', weapon'). weapon_id' = weapon_id \<and>
              preserved_except [''damage''] (fields_of weapon) (fields_of weapon'))
            (entries_of data field) (entries_of (rescaled h factor data) field)"
    by (simp add: entries_rescaled records_rescaled_entries)
  with True fields_rescaled [of data h factor]
    scale_weapon_damage_document [OF assms]
  show ?thesis
    by (cases "write_raises fs file_path") (auto simp: has_damage_def)
next
  case False
  with scale_weapon_damage_document [OF assms] damage_lines_none [OF False]
  show ?thesis
    by (auto simp: has_damage_def)
qed

lemma loads_net: "loads sample_host net_text = Inr net_doc"
  by (simp add: sample_host_def sample_texts_def net_text_def pistol_text_def fist_text_def)

lemma weapon_document_net: "weapon_document net_doc"
  by (simp add: net_doc_def weapon_document_def weapon_mapping_def weapon_record_def
      damage_of_def)

lemma integral_damage_net: "integral_damage net_doc"
  by (simp add: net_doc_def integral_damage_def entries_of_def damage_of_def)

theorem rewrite_only_if_changed_examples:
  "scale_weapon_damage sample_host [(''ranged-weapons.json'', FFile net_text None None)]
       ''ranged-weapons.json'' (PInt 5) =
     ([(''ranged-weapons.json'', FFile net_text None None)],
      [''Processing ranged-weapons.json...'', ''  No damage values found in ranged-weapons.json''],
      Inr False) \<and>
   open_read [(''ranged-weapons.json'', FFile net_text None None)] ''ranged-weapons.json''
     = Inr net_text \<and>
   loads sample_host net_text = Inr net_doc \<and> weapon_document net_doc \<and>
   products_defined sample_host (PInt 5) net_doc"
proof -
  let ?fs = "[(''ranged-weapons.json'', FFile net_text None None)]"
  have o: "open_read ?fs ''ranged-weapons.json'' = Inr net_text"
    by (simp add: open_read_def)
  note pd = integral_products_defined [OF integral_damage_net, of sample_host 5]
  have "\<not> list_ex (\<lambda>(weapon_id, weapon). damage_of weapon \<noteq> None)
            (entries_of net_doc ''weapons'' @ entries_of net_doc ''meleeWeapons'')"
    by (simp add: net_doc_def entries_of_def damage_of_def)
  with rewrite_only_if_changed [OF o loads_net weapon_document_net pd] o loads_net
    weapon_document_net pd
  show ?thesis by simp
qed

subsection \<open>The run over the themes\<close>

lemma open_read_exists: "open_read fs p = Inr t \<Longrightarrow> path_exists fs p"
  by (auto simp: open_read_def path_exists_def split: option.splits)

lemma scale_weapon_damage_malformed:
  "open_read fs p = Inr t \<Longrightarrow> loads h t = Inl e \<Longrightarrow>
   scale_weapon_damage h fs p k = (fs, [''Processing '' @ p @ ''...''], Inl e)"
  by (simp add: scale_weapon_damage_def)

lemma open_write_files:
  "open_write fs p new_text = Inr fs' \<Longrightarrow> \<exists>x. fs' = AList.update p x fs"
  by (auto simp: open_write_def split: option.splits fnode.splits)

lemma scale_weapon_damage_files:
  assumes "scale_weapon_damage h fs p k = (fs', out, r)"
  shows "fs' = fs \<or>
         (\<exists>t d x. open_read fs p = Inr t \<and> loads h t = Inr d \<and> fs' = AList.update p x fs)"
proof (cases "open_read fs p")
  case (Inl e)
  with assms show ?thesis by (simp add: scale_weapon_damage_def)
next
  case o: (Inr t)
  show ?thesis
  proof (cases "loads h t")
    case (Inl e)
    with assms o show ?thesis by (simp add: scale_weapon_damage_def)
  next
    case l: (Inr d)
    obtain out1 r1 where s: "scale_data h k d = (out1, r1)"
      by (cases "scale_data h k d") auto
    show ?thesis
    proof (cases r1)
      case (Inl e)
      with assms o l s show ?thesis by (simp add: scale_weapon_damage_def)
    next
      case (Inr dc)
      obtain d' c where dc: "dc = (d', c)" by (cases dc) auto
      show ?thesis
      proof (cases c)
        case False
        with assms o l s Inr dc show ?thesis by (simp add: scale_weapon_damage_def)
      next
        case True
        show ?thesis
        proof (cases "open_write fs p (dumps h d')")
          case (Inl e)
          with assms o l s Inr dc True show ?thesis by (simp add: scale_weapon_damage_def)
        next
          case w: (Inr fs1)
          with assms o l s Inr dc True have "fs' = fs1" by (simp add: scale_weapon_damage_def)
          with open_write_files [OF w] o l show ?thesis by blast
        qed
      qed
    qed
  qed
qed

lemma scale_weapon_damage_keeps_malformed:
  assumes "scale_weapon_damage h fs p k = (fs', out, r)"
    and "open_read fs q = Inr t" and "loads h t = Inl e"
  shows "open_read fs' q = Inr t"
proof -
  from scale_weapon_damage_files [OF assms(1)] show ?thesis
  proof
    assume "fs' = fs"
    with assms(2) show ?thesis by simp
  next
    assume "\<exists>t d x. open_read fs p = Inr t \<and> loads h t = Inr d \<and> fs' = AList.update p x fs"
    then obtain t' d x where p: "open_read fs p = Inr t'" "loads h t' = Inr d"
      and fs': "fs' = AList.update p x fs" by blast
    from p assms(2,3) have "q \<noteq> p" by auto
    with assms(2) fs' show ?thesis
      by (simp add: open_read_def AList.update_conv')
  qed
qed

lemma scale_weapon_damage_keeps_existing:
  assumes "scale_weapon_damage h fs p k = (fs', out, r)"
  shows "path_exists fs' q = path_exists fs q"
proof -
  from scale_weapon_damage_files [OF assms] show ?thesis
  proof
    assume "fs' = fs"
    then show ?thesis by simp
  next
    assume "\<exists>t d x. open_read fs p = Inr t \<and> loads h t = Inr d \<and> fs' = AList.update p x fs"
    then obtain t x where o: "open_read fs p = Inr t" and fs': "fs' = AList.update p x fs"
      by blast
    from open_read_exists [OF o] fs' show ?thesis
      by (simp add: path_exists_def AList.update_conv')
  qed
qed

lemma scale_weapon_damage_frame:
  assumes "scale_weapon_damage h fs p k = (fs', out, r)" and "q \<noteq> p"
  shows "map_of fs' q = map_of fs q"
  using scale_weapon_damage_files [OF assms(1)] assms(2)
  by (auto simp: AList.update_conv')

lemma weapon_files_loop_keeps:
  "weapon_files_loop h td files fs n = (fs', out, r) \<Longrightarrow>
   (open_read fs q = Inr t \<longrightarrow> loads h t = Inl e \<longrightarrow> open_read fs' q = Inr t) \<and>
   (path_exists fs q' \<longrightarrow> path_exists fs' q')"
proof (induction files arbitrary: fs n fs' out r)
  case Nil
  then show ?case by simp
next
  case (Cons f files)
  let ?p = "path_join td f"
  show ?case
  proof (cases "path_exists fs ?p")
    case False
    with Cons.prems obtain out2 where "weapon_files_loop h td files fs n = (fs', out2, r)"
      by (auto simp: Let_def split: prod.splits)
    from Cons.IH [OF this] show ?thesis .
  next
    case True
    obtain fs1 out1 r1 where s: "scale_weapon_damage h fs ?p (PInt 5) = (fs1, out1, r1)"
      by (cases "scale_weapon_damage h fs ?p (PInt 5)") auto
    note k1 = scale_weapon_damage_keeps_malformed [OF s, of q t e]
      and k2 = scale_weapon_damage_keeps_existing [OF s, of q']
    show ?thesis
    proof (cases r1)
      case (Inl e1)
      with Cons.prems True s have "fs' = fs1" by (simp add: Let_def)
      with k1 k2 show ?thesis by blast
    next
      case (Inr c)
      with Cons.prems True s obtain out2 n' where
        "weapon_files_loop h td files fs1 n' = (fs', out2, r)"
        by (auto simp: Let_def split: prod.splits)
      from Cons.IH [OF this] k1 k2 show ?thesis by blast
    qed
  qed
qed

lemma weapon_files_loop_malformed:
  assumes "f \<in> set files" and "open_read fs (path_join td f) = Inr t" and "loads h t = Inl e"
  shows "\<exists>fs' out e'. weapon_files_loop h td files fs n = (fs', out, Inl e') \<and>
           open_read fs' (path_join td f) = Inr t"
  using assms
proof (induction files arbitrary: fs n)
  case Nil
  then show ?case by simp
next
  case (Cons g files)
  let ?p = "path_join td g"
  show ?case
  proof (cases "g = f")
    case True
    with Cons.prems show ?thesis
      by (simp add: Let_def open_read_exists scale_weapon_damage_malformed)
  next
    case False
    with Cons.prems have f: "f \<in> set files" by simp
    show ?thesis
    proof (cases "path_exists fs ?p")
      case no: False
      from Cons.IH [OF f Cons.prems(2,3), of n] no show ?thesis
        by (auto simp: Let_def)
    next
      case yes: True
      obtain fs1 out1 r1 where s: "scale_weapon_damage h fs ?p (PInt 5) = (fs1, out1, r1)"
        by (cases "scale_weapon_damage h fs ?p (PInt 5)") auto
      have k: "open_read fs1 (path_join td f) = Inr t"
        by (rule scale_weapon_damage_keeps_malformed [OF s Cons.prems(2,3)])
      show ?thesis
      proof (cases r1)
        case (Inl e1)
        with yes s k show ?thesis by (simp add: Let_def)
      next
        case (Inr c)
        from Cons.IH [OF f k Cons.prems(3), of "if c then n + 1 else n"] yes s Inr
        show ?thesis by (auto simp: Let_def)
      qed
    qed
  qed
qed

lemma themes_loop_malformed:
  assumes "theme \<in> set ths" and "path_exists fs (path_join base_dir theme)"
    and "f \<in> set weapon_files"
    and "open_read fs (path_join (path_join base_dir theme) f) = Inr t" and "loads h t = Inl e"
  shows "\<exists>fs' out e'. themes_loop h ths fs n = (fs', out, Inl e') \<and>
           open_read fs' (path_join (path_join base_dir theme) f) = Inr t"
  using assms
proof (induction ths arbitrary: fs n)
  case Nil
  then show ?case by simp
next
  case (Cons th ths)
  let ?td = "path_join base_dir th"
  show ?case
  proof (cases "th = theme")
    case True
    from weapon_files_loop_malformed [OF Cons.prems(3,4,5), of n] True Cons.prems(2)
    show ?thesis by (auto simp: Let_def)
  next
    case False
    with Cons.prems have th: "theme \<in> set ths" by simp
    show ?thesis
    proof (cases "path_exists fs ?td")
      case no: False
      from Cons.IH [OF th Cons.prems(2,3,4,5), of n] no show ?thesis
        by (auto simp: Let_def)
    next
      case yes: True
      obtain fs1 out1 r1 where w: "weapon_files_loop h ?td weapon_files fs n = (fs1, out1, r1)"
        by (cases "weapon_files_loop h ?td weapon_files fs n") auto
      from weapon_files_loop_keeps [OF w, of "path_join (path_join base_dir theme) f" t e
          "path_join base_dir theme"] Cons.prems
      have k: "open_read fs1 (path_join (path_join base_dir theme) f) = Inr t"
        and d: "path_exists fs1 (path_join base_dir theme)" by auto
      show ?thesis
      proof (cases r1)
        case (Inl e1)
        with yes w k show ?thesis by (simp add: Let_def)
      next
        case (Inr n1)
        from Cons.IH [OF th d Cons.prems(3) k Cons.prems(5), of n1] yes w Inr
        show ?thesis by (auto simp: Let_def)
      qed
    qed
  qed
qed

text \<open>
  C7. On a file whose text \<open>json.load\<close> rejects, \<open>scale_weapon_damage\<close> raises that
  error after its first line of output and leaves every file as it was. Nothing in
  \<open>main\<close> catches it: when the file is one of the configured files of a theme whose
  directory exists, the run ends with an exception (this one, or one raised earlier), and
  the file still holds its text afterwards.
\<close>

theorem malformed_json_propagates:
  assumes "open_read fs file_path = Inr text" and "loads h text = Inl e"
  shows "scale_weapon_damage h fs file_path factor =
           (fs, [''Processing '' @ file_path @ ''...''], Inl e) \<and>
         (\<forall>theme \<in> set themes. \<forall>weapon_file \<in> set weapon_files.
            file_path = path_join (path_join base_dir theme) weapon_file \<and>
            path_exists fs (path_join base_dir theme) \<longrightarrow>
            (\<exists>fs' out e'. main_rescaler h fs = (fs', out, Inl e') \<and>
                           open_read fs' file_path = Inr text))"
proof (intro conjI ballI impI)
  show "scale_weapon_damage h fs file_path factor =
           (fs, [''Processing '' @ file_path @ ''...''], Inl e)"
    using assms by (rule scale_weapon_damage_malformed)
next
  fix theme weapon_file
  assume th: "theme \<in> set themes" and wf: "weapon_file \<in> set weapon_files"
    and "file_path = path_join (path_join base_dir theme) weapon_file \<and>
            path_exists fs (path_join base_dir theme)"
  then have p: "file_path = path_join (path_join base_dir theme) weapon_file"
    and d: "path_exists fs (path_join base_dir theme)" by simp_all
  from themes_loop_malformed [OF th d wf assms(1) [unfolded p] assms(2), of 0]
  show "\<exists>fs' out e'. main_rescaler h fs = (fs', out, Inl e') \<and> open_read fs' file_path = Inr text"
    by (auto simp: main_rescaler_def p)
qed

theorem malformed_json_propagates_example:
  "open_read broken_fs broken_path = Inr broken_text \<and>
   loads sample_host broken_text = Inl JSONDecodeError \<and>
   ''test_theme'' \<in> set themes \<and> ''ranged-weapons.json'' \<in> set weapon_files \<and>
   broken_path = path_join (path_join base_dir ''test_theme'') ''ranged-weapons.json'' \<and>
   path_exists broken_fs (path_join base_dir ''test_theme'') \<and>
   scale_weapon_damage sample_host broken_fs broken_path (PInt 5) =
     (broken_fs, [''Processing '' @ broken_path @ ''...''], Inl JSONDecodeError) \<and>
   (\<exists>fs' out e'. main_rescaler sample_host broken_fs = (fs', out, Inl e') \<and>
                  open_read fs' broken_path = Inr broken_text)"
proof -
  have o: "open_read broken_fs broken_path = Inr broken_text"
    by (simp add: open_read_def broken_fs_def broken_path_def)
  have l: "loads sample_host broken_text = Inl JSONDecodeError"
    by (simp add: sample_host_def sample_texts_def broken_text_def pistol_text_def
        fist_text_def net_text_def)
  have th: "''test_theme'' \<in> set themes" by (simp add: themes_def)
  have wf: "''ranged-weapons.json'' \<in> set weapon_files" by (simp add: weapon_files_def)
  have p: "broken_path = path_join (path_join base_dir ''test_theme'') ''ranged-weapons.json''"
    by (simp add: broken_path_def path_join_def base_dir_def)
  have d: "path_exists broken_fs (path_join base_dir ''test_theme'')"
    by (simp add: path_exists_def broken_fs_def path_join_def base_dir_def)
  note run = malformed_json_propagates [OF o l, of "PInt 5"]
  from run have a: "scale_weapon_damage sample_host broken_fs broken_path (PInt 5) =
     (broken_fs, [''Processing '' @ broken_path @ ''...''], Inl JSONDecodeError)"
    by (rule conjunct1)
  from run th wf p d have b: "\<exists>fs' out e'. main_rescaler sample_host broken_fs = (fs', out, Inl e') \<and>
                  open_read fs' broken_path = Inr broken_text"
    by blast
  from o l th wf p d a b show ?thesis by blast
qed

subsection \<open>How the run ends\<close>

lemma path_join_inject: "path_join a b = path_join a c \<longleftrightarrow> b = c"
  by (simp add: path_join_def)

text \<open>What a call raises or returns depends on the node at its path alone.\<close>

lemma open_write_cong:
  assumes "map_of fs' p = map_of fs p"
  shows "(case open_write fs' p t of Inl e \<Rightarrow> Some e | Inr x \<Rightarrow> None) =
         (case open_write fs p t of Inl e \<Rightarrow> Some e | Inr x \<Rightarrow> None)"
  using assms by (simp add: open_write_def split: option.splits fnode.splits)

lemma scale_weapon_damage_cong:
  assumes "map_of fs' p = map_of fs p"
  shows "snd (snd (scale_weapon_damage h fs' p k)) = snd (snd (scale_weapon_damage h fs p k))"
proof -
  from assms have o: "open_read fs' p = open_read fs p" by (simp add: open_read_def)
  show ?thesis
  proof (cases "open_read fs p")
    case (Inl e)
    with o show ?thesis by (simp add: scale_weapon_damage_def)
  next
    case r: (Inr t)
    show ?thesis
    proof (cases "loads h t")
      case (Inl e)
      with o r show ?thesis by (simp add: scale_weapon_damage_def)
    next
      case l: (Inr d)
      obtain out1 r1 where s: "scale_data h k d = (out1, r1)"
        by (cases "scale_data h k d") auto
      show ?thesis
      proof (cases r1)
        case (Inl e)
        with o r l s show ?thesis by (simp add: scale_weapon_damage_def)
      next
        case (Inr dc)
        obtain d' c where dc: "dc = (d', c)" by (cases dc) auto
        from open_write_cong [OF assms, of "dumps h d'"] o r l s Inr dc show ?thesis
          by (cases c) (auto simp: scale_weapon_damage_def split: sum.splits)
      qed
    qed
  qed
qed

lemma stops_run_cong:
  assumes "\<And>q. path_exists fs' q = path_exists fs q"
    and "map_of fs' (path_join (path_join base_dir theme) f)
           = map_of fs (path_join (path_join base_dir theme) f)"
  shows "stops_run h fs' theme f e = stops_run h fs theme f e"
  unfolding stops_run_def assms(1) scale_weapon_damage_cong [OF assms(2)] ..

text \<open>
  The inner loop: it ends with the exception of the first file that is there and raises;
  without such a file it returns, and has warned of each file that is not there.
\<close>

lemma weapon_files_loop_run:
  assumes "distinct files"
  shows "\<exists>fs' out r. weapon_files_loop h td files fs n = (fs', out, r) \<and>
     (\<forall>q. q \<notin> path_join td ` set files \<longrightarrow> map_of fs' q = map_of fs q) \<and>
     (\<forall>q. path_exists fs' q = path_exists fs q) \<and>
     (\<forall>e. r = Inl e \<longrightarrow>
        (\<exists>f \<in> set files. path_exists fs (path_join td f) \<and>
           snd (snd (scale_weapon_damage h fs (path_join td f) (PInt 5))) = Inl e)) \<and>
     (\<forall>n'. r = Inr n' \<longrightarrow>
        (\<forall>f \<in> set files. \<forall>e. path_exists fs (path_join td f) \<longrightarrow>
           snd (snd (scale_weapon_damage h fs (path_join td f) (PInt 5))) \<noteq> Inl e) \<and>
        (\<forall>f \<in> set files. \<not> path_exists fs (path_join td f) \<longrightarrow>
           (''  Warning: File '' @ path_join td f @ '' not found'') \<in> set out))"
  using assms
proof (induction files arbitrary: fs n)
  case Nil
  then show ?case by simp
next
  case (Cons g files)
  let ?p = "path_join td g"
  let ?res = "\<lambda>fs f. snd (snd (scale_weapon_damage h fs (path_join td f) (PInt 5)))"
  let ?warn = "\<lambda>f. ''  Warning: File '' @ path_join td f @ '' not found''"
  from Cons.prems have dist: "distinct files" and g: "g \<notin> set files" by simp_all
  show ?case
  proof (cases "path_exists fs ?p")
    case False
    from Cons.IH [OF dist, of fs n] obtain fs' out r where
      run: "weapon_files_loop h td files fs n = (fs', out, r)"
      and fr: "\<forall>q. q \<notin> path_join td ` set files \<longrightarrow> map_of fs' q = map_of fs q"
      and ex: "\<forall>q. path_exists fs' q = path_exists fs q"
      and stop: "\<forall>e. r = Inl e \<longrightarrow>
                   (\<exists>f \<in> set files. path_exists fs (path_join td f) \<and> ?res fs f = Inl e)"
      and ok: "\<forall>n'. r = Inr n' \<longrightarrow>
                 (\<forall>f \<in> set files. \<forall>e. path_exists fs (path_join td f) \<longrightarrow> ?res fs f \<noteq> Inl e) \<and>
                 (\<forall>f \<in> set files. \<not> path_exists fs (path_join td f) \<longrightarrow> ?warn f \<in> set out)"
      by blast
    have eq: "weapon_files_loop h td (g # files) fs n = (fs', ?warn g # out, r)"
      using False run by (simp add: Let_def)
    have fr': "\<forall>q. q \<notin> path_join td ` set (g # files) \<longrightarrow> map_of fs' q = map_of fs q"
      using fr by simp
    have stop': "\<forall>e. r = Inl e \<longrightarrow>
                   (\<exists>f \<in> set (g # files). path_exists fs (path_join td f) \<and> ?res fs f = Inl e)"
      using stop by simp
    have ok': "\<forall>n'. r = Inr n' \<longrightarrow>
                 (\<forall>f \<in> set (g # files). \<forall>e. path_exists fs (path_join td f) \<longrightarrow>
                    ?res fs f \<noteq> Inl e) \<and>
                 (\<forall>f \<in> set (g # files). \<not> path_exists fs (path_join td f) \<longrightarrow>
                    ?warn f \<in> set (?warn g # out))"
      using ok False by simp
    from eq fr' ex stop' ok' show ?thesis by blast
  next
    case True
    obtain fs1 out1 r1 where s: "scale_weapon_damage h fs ?p (PInt 5) = (fs1, out1, r1)"
      by (cases "scale_weapon_damage h fs ?p (PInt 5)") auto
    have fr1: "\<forall>q. q \<noteq> ?p \<longrightarrow> map_of fs1 q = map_of fs q"
      using scale_weapon_damage_frame [OF s] by blast
    have ex1: "\<forall>q. path_exists fs1 q = path_exists fs q"
      using scale_weapon_damage_keeps_existing [OF s] by blast
    have resg: "?res fs g = r1" by (simp add: s)
    show ?thesis
    proof (cases r1)
      case (Inl e1)
      have eq: "weapon_files_loop h td (g # files) fs n = (fs1, out1, Inl e1)"
        using True s Inl by (simp add: Let_def)
      have fr': "\<forall>q. q \<notin> path_join td ` set (g # files) \<longrightarrow> map_of fs1 q = map_of fs q"
        using fr1 by simp
      have stop': "\<forall>e. (Inl e1 :: py_error + nat) = Inl e \<longrightarrow>
                   (\<exists>f \<in> set (g # files). path_exists fs (path_join td f) \<and> ?res fs f = Inl e)"
        using True resg Inl by simp
      have ok': "\<forall>n'. (Inl e1 :: py_error + nat) = Inr n' \<longrightarrow>
                 (\<forall>f \<in> set (g # files). \<forall>e. path_exists fs (path_join td f) \<longrightarrow>
                    ?res fs f \<noteq> Inl e) \<and>
                 (\<forall>f \<in> set (g # files). \<not> path_exists fs (path_join td f) \<longrightarrow>
                    ?warn f \<in> set out1)"
        by simp
      from eq fr' ex1 stop' ok' show ?thesis by blast
    next
      case (Inr c)
      have same: "map_of fs1 (path_join td f) = map_of fs (path_join td f)"
        if "f \<in> set files" for f
      proof -
        from that g have "path_join td f \<noteq> ?p" by (auto simp: path_join_inject)
        with fr1 show ?thesis by blast
      qed
      have res: "?res fs1 f = ?res fs f" if "f \<in> set files" for f
        by (rule scale_weapon_damage_cong [OF same [OF that]])
      from Cons.IH [OF dist, of fs1 "if c then n + 1 else n"] obtain fs' out r where
        run: "weapon_files_loop h td files fs1 (if c then n + 1 else n) = (fs', out, r)"
        and fr: "\<forall>q. q \<notin> path_join td ` set files \<longrightarrow> map_of fs' q = map_of fs1 q"
        and ex: "\<forall>q. path_exists fs' q = path_exists fs1 q"
        and stop: "\<forall>e. r = Inl e \<longrightarrow>
                     (\<exists>f \<in> set files. path_exists fs1 (path_join td f) \<and> ?res fs1 f = Inl e)"
        and ok: "\<forall>n'. r = Inr n' \<longrightarrow>
                   (\<forall>f \<in> set files. \<forall>e. path_exists fs1 (path_join td f) \<longrightarrow>
                      ?res fs1 f \<noteq> Inl e) \<and>
                   (\<forall>f \<in> set files. \<not> path_exists fs1 (path_join td f) \<longrightarrow> ?warn f \<in> set out)"
        by blast
      have eq: "weapon_files_loop h td (g # files) fs n = (fs', out1 @ out, r)"
        using True s Inr run by (simp add: Let_def)
      have fr': "\<forall>q. q \<notin> path_join td ` set (g # files) \<longrightarrow> map_of fs' q = map_of fs q"
        using fr fr1 by simp
      have ex': "\<forall>q. path_exists fs' q = path_exists fs q"
        using ex ex1 by simp
      have stop': "\<forall>e. r = Inl e \<longrightarrow>
                   (\<exists>f \<in> set (g # files). path_exists fs (path_join td f) \<and> ?res fs f = Inl e)"
        using stop ex1 res by auto
      have ok1: "\<forall>n'. r = Inr n' \<longrightarrow>
                 (\<forall>f \<in> set (g # files). \<forall>e. path_exists fs (path_join td f) \<longrightarrow>
                    ?res fs f \<noteq> Inl e)"
        using ok ex1 res resg Inr by auto
      have ok2: "\<forall>n'. r = Inr n' \<longrightarrow>
                 (\<forall>f \<in> set (g # files). \<not> path_exists fs (path_join td f) \<longrightarrow>
                    ?warn f \<in> set (out1 @ out))"
        using ok ex1 True by auto
      from eq fr' ex' stop' ok1 ok2 show ?thesis by blast
    qed
  qed
qed

lemma theme_paths_iff:
  "p \<in> set (theme_paths ths) \<longleftrightarrow>
     (\<exists>theme \<in> set ths. \<exists>f \<in> set weapon_files. p = path_join (path_join base_dir theme) f)"
  by (auto simp: theme_paths_def)

text \<open>The outer loop, in the same way.\<close>

lemma themes_loop_run:
  assumes "distinct weapon_files" and "distinct (theme_paths ths)"
  shows "\<exists>fs' out r. themes_loop h ths fs n = (fs', out, r) \<and>
     (\<forall>q. q \<notin> set (theme_paths ths) \<longrightarrow> map_of fs' q = map_of fs q) \<and>
     (\<forall>q. path_exists fs' q = path_exists fs q) \<and>
     (\<forall>e. r = Inl e \<longrightarrow>
        (\<exists>theme \<in> set ths. \<exists>f \<in> set weapon_files. stops_run h fs theme f e)) \<and>
     (\<forall>n'. r = Inr n' \<longrightarrow>
        (\<forall>theme \<in> set ths. \<forall>f \<in> set weapon_files. \<forall>e. \<not> stops_run h fs theme f e) \<and>
        (\<forall>theme \<in> set ths. \<not> path_exists fs (path_join base_dir theme) \<longrightarrow>
           missing_dir_warning theme \<in> set out) \<and>
        (\<forall>theme \<in> set ths. \<forall>f \<in> set weapon_files.
           path_exists fs (path_join base_dir theme) \<and>
           \<not> path_exists fs (path_join (path_join base_dir theme) f) \<longrightarrow>
           missing_file_warning theme f \<in> set out))"
  using assms(2)
proof (induction ths arbitrary: fs n)
  case Nil
  then show ?case by (simp add: theme_paths_def)
next
  case (Cons th ths)
  let ?td = "path_join base_dir th"
  let ?here = "path_join ?td ` set weapon_files"
  let ?head = "CHR 0x0A # ''Processing theme: '' @ th"
  from Cons.prems have dist: "distinct (theme_paths ths)"
    and disj: "?here \<inter> set (theme_paths ths) = {}"
    by (simp_all add: theme_paths_def)
  have paths: "set (theme_paths (th # ths)) = ?here \<union> set (theme_paths ths)"
    by (simp add: theme_paths_def)
  show ?case
  proof (cases "path_exists fs ?td")
    case False
    from Cons.IH [OF dist, of fs n] obtain fs' out r where
      run: "themes_loop h ths fs n = (fs', out, r)"
      and fr: "\<forall>q. q \<notin> set (theme_paths ths) \<longrightarrow> map_of fs' q = map_of fs q"
      and ex: "\<forall>q. path_exists fs' q = path_exists fs q"
      and stop: "\<forall>e. r = Inl e \<longrightarrow>
              (\<exists>theme \<in> set ths. \<exists>f \<in> set weapon_files. stops_run h fs theme f e)"
      and ok: "\<forall>n'. r = Inr n' \<longrightarrow>
        (\<forall>theme \<in> set ths. \<forall>f \<in> set weapon_files. \<forall>e. \<not> stops_run h fs theme f e) \<and>
        (\<forall>theme \<in> set ths. \<not> path_exists fs (path_join base_dir theme) \<longrightarrow>
           missing_dir_warning theme \<in> set out) \<and>
        (\<forall>theme \<in> set ths. \<forall>f \<in> set weapon_files.
           path_exists fs (path_join base_dir theme) \<and>
           \<not> path_exists fs (path_join (path_join base_dir theme) f) \<longrightarrow>
           missing_file_warning theme f \<in> set out)"
      by blast
    let ?out = "?head # missing_dir_warning th # out"
    have eq: "themes_loop h (th # ths) fs n = (fs', ?out, r)"
      using False run by (simp add: Let_def missing_dir_warning_def)
    have fr': "\<forall>q. q \<notin> set (theme_paths (th # ths)) \<longrightarrow> map_of fs' q = map_of fs q"
      using fr paths by simp
    have stop': "\<forall>e. r = Inl e \<longrightarrow>
              (\<exists>theme \<in> set (th # ths). \<exists>f \<in> set weapon_files. stops_run h fs theme f e)"
      using stop by simp
    have nostop: "\<forall>f \<in> set weapon_files. \<forall>e. \<not> stops_run h fs th f e"
      using False by (simp add: stops_run_def)
    have ok1: "\<forall>n'. r = Inr n' \<longrightarrow>
        (\<forall>theme \<in> set (th # ths). \<forall>f \<in> set weapon_files. \<forall>e. \<not> stops_run h fs theme f e)"
      using ok nostop by simp
    have ok2: "\<forall>n'. r = Inr n' \<longrightarrow>
        (\<forall>theme \<in> set (th # ths). \<not> path_exists fs (path_join base_dir theme) \<longrightarrow>
           missing_dir_warning theme \<in> set ?out)"
      using ok by simp
    have ok3: "\<forall>n'. r = Inr n' \<longrightarrow>
        (\<forall>theme \<in> set (th # ths). \<forall>f \<in> set weapon_files.
           path_exists fs (path_join base_dir theme) \<and>
           \<not> path_exists fs (path_join (path_join base_dir theme) f) \<longrightarrow>
           missing_file_warning theme f \<in> set ?out)"
      using ok False by simp
    from eq fr' ex stop' ok1 ok2 ok3 show ?thesis by blast
  next
    case True
    from weapon_files_loop_run [OF assms(1), of h ?td fs n] obtain fs1 out1 r1 where
      w: "weapon_files_loop h ?td weapon_files fs n = (fs1, out1, r1)"
      and fr1: "\<forall>q. q \<notin> ?here \<longrightarrow> map_of fs1 q = map_of fs q"
      and ex1: "\<forall>q. path_exists fs1 q = path_exists fs q"
      and stop1: "\<forall>e. r1 = Inl e \<longrightarrow>
        (\<exists>f \<in> set weapon_files. path_exists fs (path_join ?td f) \<and>
           snd (snd (scale_weapon_damage h fs (path_join ?td f) (PInt 5))) = Inl e)"
      and ok1: "\<forall>n'. r1 = Inr n' \<longrightarrow>
        (\<forall>f \<in> set weapon_files. \<forall>e. path_exists fs (path_join ?td f) \<longrightarrow>
           snd (snd (scale_weapon_damage h fs (path_join ?td f) (PInt 5))) \<noteq> Inl e) \<and>
        (\<forall>f \<in> set weapon_files. \<not> path_exists fs (path_join ?td f) \<longrightarrow>
           (''  Warning: File '' @ path_join ?td f @ '' not found'') \<in> set out1)"
      by blast
    show ?thesis
    proof (cases r1)
      case (Inl e1)
      have eq: "themes_loop h (th # ths) fs n = (fs1, ?head # out1, Inl e1)"
        using True w Inl by (simp add: Let_def)
      have fr': "\<forall>q. q \<notin> set (theme_paths (th # ths)) \<longrightarrow> map_of fs1 q = map_of fs q"
        using fr1 paths by simp
      from stop1 Inl True have "\<exists>f \<in> set weapon_files. stops_run h fs th f e1"
        by (simp add: stops_run_def)
      then have stop': "\<forall>e. (Inl e1 :: py_error + nat) = Inl e \<longrightarrow>
              (\<exists>theme \<in> set (th # ths). \<exists>f \<in> set weapon_files. stops_run h fs theme f e)"
        by simp
      have ok': "\<forall>n'. (Inl e1 :: py_error + nat) = Inr n' \<longrightarrow>
        (\<forall>theme \<in> set (th # ths). \<forall>f \<in> set weapon_files. \<forall>e. \<not> stops_run h fs theme f e) \<and>
        (\<forall>theme \<in> set (th # ths). \<not> path_exists fs (path_join base_dir theme) \<longrightarrow>
           missing_dir_warning theme \<in> set (?head # out1)) \<and>
        (\<forall>theme \<in> set (th # ths). \<forall>f \<in> set weapon_files.
           path_exists fs (path_join base_dir theme) \<and>
           \<not> path_exists fs (path_join (path_join base_dir theme) f) \<longrightarrow>
           missing_file_warning theme f \<in> set (?head # out1))"
        by simp
      from eq fr' ex1 stop' ok' show ?thesis by blast
    next
      case (Inr n1)
      have same: "map_of fs1 (path_join (path_join base_dir theme) f)
                    = map_of fs (path_join (path_join base_dir theme) f)"
        if "theme \<in> set ths" "f \<in> set weapon_files" for theme f
      proof -
        from that have "path_join (path_join base_dir theme) f \<in> set (theme_paths ths)"
          by (auto simp: theme_paths_iff)
        with disj have "path_join (path_join base_dir theme) f \<notin> ?here" by blast
        with fr1 show ?thesis by blast
      qed
      have st: "stops_run h fs1 theme f e = stops_run h fs theme f e"
        if "theme \<in> set ths" "f \<in> set weapon_files" for theme f e
        by (rule stops_run_cong [OF _ same [OF that]]) (simp add: ex1)
      from Cons.IH [OF dist, of fs1 n1] obtain fs' out r where
        run: "themes_loop h ths fs1 n1 = (fs', out, r)"
        and fr: "\<forall>q. q \<notin> set (theme_paths ths) \<longrightarrow> map_of fs' q = map_of fs1 q"
        and ex: "\<forall>q. path_exists fs' q = path_exists fs1 q"
        and stop: "\<forall>e. r = Inl e \<longrightarrow>
              (\<exists>theme \<in> set ths. \<exists>f \<in> set weapon_files. stops_run h fs1 theme f e)"
        and ok: "\<forall>n'. r = Inr n' \<longrightarrow>
          (\<forall>theme \<in> set ths. \<forall>f \<in> set weapon_files. \<forall>e. \<not> stops_run h fs1 theme f e) \<and>
          (\<forall>theme \<in> set ths. \<not> path_exists fs1 (path_join base_dir theme) \<longrightarrow>
             missing_dir_warning theme \<in> set out) \<and>
          (\<forall>theme \<in> set ths. \<forall>f \<in> set weapon_files.
             path_exists fs1 (path_join base_dir theme) \<and>
             \<not> path_exists fs1 (path_join (path_join base_dir theme) f) \<longrightarrow>
             missing_file_warning theme f \<in> set out)"
        by blast
      let ?out = "?head # out1 @ out"
      have eq: "themes_loop h (th # ths) fs n = (fs', ?out, r)"
        using True w Inr run by (simp add: Let_def)
      have fr': "\<forall>q. q \<notin> set (theme_paths (th # ths)) \<longrightarrow> map_of fs' q = map_of fs q"
        using fr fr1 paths by simp
      have ex': "\<forall>q. path_exists fs' q = path_exists fs q"
        using ex ex1 by simp
      have stop': "\<forall>e. r = Inl e \<longrightarrow>
              (\<exists>theme \<in> set (th # ths). \<exists>f \<in> set weapon_files. stops_run h fs theme f e)"
        using stop st by auto
      have nostop: "\<forall>f \<in> set weapon_files. \<forall>e. \<not> stops_run h fs th f e"
        using ok1 Inr by (auto simp: stops_run_def)
      have ok1': "\<forall>n'. r = Inr n' \<longrightarrow>
        (\<forall>theme \<in> set (th # ths). \<forall>f \<in> set weapon_files. \<forall>e. \<not> stops_run h fs theme f e)"
        using ok st nostop by auto
      have ok2': "\<forall>n'. r = Inr n' \<longrightarrow>
        (\<forall>theme \<in> set (th # ths). \<not> path_exists fs (path_join base_dir theme) \<longrightarrow>
           missing_dir_warning theme \<in> set ?out)"
        using ok ex1 True by auto
      have ok3': "\<forall>n'. r = Inr n' \<longrightarrow>
        (\<forall>theme \<in> set (th # ths). \<forall>f \<in> set weapon_files.
           path_exists fs (path_join base_dir theme) \<and>
           \<not> path_exists fs (path_join (path_join base_dir theme) f) \<longrightarrow>
           missing_file_warning theme f \<in> set ?out)"
        using ok ex1 ok1 Inr by (auto simp: missing_file_warning_def)
      from eq fr' ex' stop' ok1' ok2' ok3' show ?thesis by blast
    qed
  qed
qed

lemma distinct_weapon_files: "distinct weapon_files"
  by (simp add: weapon_files_def)

lemma distinct_theme_paths: "distinct (theme_paths themes)"
  by (simp add: theme_paths_def themes_def weapon_files_def path_join_def)

text \<open>
  C2, as amended. \<open>main\<close> catches nothing, so how the run ends is settled by the
  configured files: when \<open>scale_weapon_damage\<close> raises on one that is there, in a theme
  directory that is there, the exception of such a file leaves \<open>main\<close> and the exit code
  is 1; otherwise \<open>main\<close> returns, the exit code is 0, and a missing theme directory and
  a missing file of a theme that is there have each been reported by a warning on stdout
  and skipped.
\<close>

theorem main_rescaler_exit_code:
  "\<exists>fs' out r.
     main_rescaler h fs = (fs', out, r) \<and>
     (if \<exists>theme \<in> set themes. \<exists>weapon_file \<in> set weapon_files. \<exists>e.
           stops_run h fs theme weapon_file e
      then exit_code r = 1 \<and>
           (\<exists>theme \<in> set themes. \<exists>weapon_file \<in> set weapon_files. \<exists>e.
              stops_run h fs theme weapon_file e \<and> r = Inl e)
      else r = Inr () \<and> exit_code r = 0 \<and>
           (\<forall>theme \<in> set themes. \<not> path_exists fs (path_join base_dir theme) \<longrightarrow>
              missing_dir_warning theme \<in> set out) \<and>
           (\<forall>theme \<in> set themes. \<forall>weapon_file \<in> set weapon_files.
              path_exists fs (path_join base_dir theme) \<and>
              \<not> path_exists fs (path_join (path_join base_dir theme) weapon_file) \<longrightarrow>
              missing_file_warning theme weapon_file \<in> set out))"
proof -
  from themes_loop_run [OF distinct_weapon_files distinct_theme_paths, of h fs 0]
  obtain fs' out r where
    run: "themes_loop h themes fs 0 = (fs', out, r)"
    and stop: "\<forall>e. r = Inl e \<longrightarrow>
        (\<exists>theme \<in> set themes. \<exists>f \<in> set weapon_files. stops_run h fs theme f e)"
    and ok: "\<forall>n'. r = Inr n' \<longrightarrow>
        (\<forall>theme \<in> set themes. \<forall>f \<in> set weapon_files. \<forall>e. \<not> stops_run h fs theme f e) \<and>
        (\<forall>theme \<in> set themes. \<not> path_exists fs (path_join base_dir theme) \<longrightarrow>
           missing_dir_warning theme \<in> set out) \<and>
        (\<forall>theme \<in> set themes. \<forall>f \<in> set weapon_files.
           path_exists fs (path_join base_dir theme) \<and>
           \<not> path_exists fs (path_join (path_join base_dir theme) f) \<longrightarrow>
           missing_file_warning theme f \<in> set out)"
    by blast
  show ?thesis
  proof (cases r)
    case (Inl e)
    have eq: "main_rescaler h fs = (fs', banner @ out, Inl e)"
      using run Inl by (simp add: main_rescaler_def)
    from stop Inl have s: "\<exists>theme \<in> set themes. \<exists>f \<in> set weapon_files. stops_run h fs theme f e"
      by simp
    then have c: "\<exists>theme \<in> set themes. \<exists>f \<in> set weapon_files. \<exists>e. stops_run h fs theme f e"
      by blast
    have x: "exit_code (Inl e) = 1" by (simp add: exit_code_def)
    from s have "\<exists>theme \<in> set themes. \<exists>f \<in> set weapon_files. \<exists>e'.
                   stops_run h fs theme f e' \<and> (Inl e :: py_error + unit) = Inl e'"
      by blast
    with eq c x show ?thesis by simp
  next
    case (Inr n')
    have eq: "main_rescaler h fs = (fs', banner @ out @ footer n', Inr ())"
      using run Inr by (simp add: main_rescaler_def)
    from ok Inr have
      c: "\<not> (\<exists>theme \<in> set themes. \<exists>f \<in> set weapon_files. \<exists>e. stops_run h fs theme f e)"
      and a: "\<forall>theme \<in> set themes. \<not> path_exists fs (path_join base_dir theme) \<longrightarrow>
           missing_dir_warning theme \<in> set (banner @ out @ footer n')"
      and b: "\<forall>theme \<in> set themes. \<forall>f \<in> set weapon_files.
           path_exists fs (path_join base_dir theme) \<and>
           \<not> path_exists fs (path_join (path_join base_dir theme) f) \<longrightarrow>
           missing_file_warning theme f \<in> set (banner @ out @ footer n')"
      by auto
    have x: "exit_code (Inr ()) = 0" by (simp add: exit_code_def)
    from eq c a b x show ?thesis by simp
  qed
qed

lemma loads_pistol: "loads sample_host pistol_text = Inr (pistol_doc 10)"
  by (simp add: sample_host_def sample_texts_def)

lemma scale_weapon_damage_good:
  "scale_weapon_damage sample_host good_fs pistol_path (PInt 5) =
     ([(''src/main/resources/data/themes/test_theme'', FDir),
       (pistol_path, FFile (render (pistol_doc 50)) None None)],
      [''Processing '' @ pistol_path @ ''...'', ''  pistol: 10 -> 50'',
       ''  Updated '' @ pistol_path],
      Inr True)"
proof -
  have o: "open_read good_fs pistol_path = Inr pistol_text"
    by (simp add: open_read_def good_fs_def pistol_path_def)
  have w: "open_write good_fs pistol_path t =
             Inr [(''src/main/resources/data/themes/test_theme'', FDir),
                  (pistol_path, FFile t None None)]" for t
    by (simp add: open_write_def good_fs_def pistol_path_def)
  have d: "dumps sample_host = render" by (simp add: sample_host_def)
  show ?thesis
    by (simp add: scale_weapon_damage_def o loads_pistol scale_pistol w d
        str_int_def str_nat_10 str_nat_50)
qed

lemma scale_weapon_damage_read_only:
  "scale_weapon_damage sample_host read_only_fs pistol_path (PInt 5) =
     (read_only_fs, [''Processing '' @ pistol_path @ ''...'', ''  pistol: 10 -> 50''],
      Inl PermissionError)"
proof -
  have o: "open_read read_only_fs pistol_path = Inr pistol_text"
    by (simp add: open_read_def read_only_fs_def pistol_path_def)
  have w: "open_write read_only_fs pistol_path t = Inl PermissionError" for t
    by (simp add: open_write_def read_only_fs_def pistol_path_def)
  show ?thesis
    by (simp add: scale_weapon_damage_def o loads_pistol scale_pistol w
        str_int_def str_nat_10 str_nat_50)
qed

lemma pistol_path_join:
  "path_join (path_join base_dir ''test_theme'') ''ranged-weapons.json'' = pistol_path"
  by (simp add: pistol_path_def path_join_def base_dir_def)

theorem main_rescaler_exit_code_examples:
  "\<not> (\<exists>theme \<in> set themes. \<exists>weapon_file \<in> set weapon_files. \<exists>e.
        stops_run sample_host good_fs theme weapon_file e) \<and>
   path_exists good_fs (path_join base_dir ''civil_war'') = False \<and>
   path_exists good_fs (path_join base_dir ''test_theme'') \<and>
   path_exists good_fs (path_join (path_join base_dir ''test_theme'') ''melee-weapons.json'')
     = False \<and>
   (\<exists>fs' out. main_rescaler sample_host good_fs = (fs', out, Inr ()) \<and>
      missing_dir_warning ''civil_war'' \<in> set out \<and>
      missing_file_warning ''test_theme'' ''melee-weapons.json'' \<in> set out) \<and>
   exit_code (snd (snd (main_rescaler sample_host good_fs))) = 0 \<and>
   stops_run sample_host read_only_fs ''test_theme'' ''ranged-weapons.json'' PermissionError \<and>
   exit_code (snd (snd (main_rescaler sample_host read_only_fs))) = 1"
proof -
  have d1: "path_exists good_fs (path_join base_dir ''test_theme'')"
    by (simp add: path_exists_def good_fs_def path_join_def base_dir_def)
  have d2: "path_exists good_fs (path_join base_dir ''civil_war'') = False"
    by (simp add: path_exists_def good_fs_def path_join_def base_dir_def pistol_path_def)
  have f2: "path_exists good_fs
              (path_join (path_join base_dir ''test_theme'') ''melee-weapons.json'') = False"
    by (simp add: path_exists_def good_fs_def path_join_def base_dir_def pistol_path_def)
  have n: "\<not> (\<exists>theme \<in> set themes. \<exists>weapon_file \<in> set weapon_files. \<exists>e.
        stops_run sample_host good_fs theme weapon_file e)"
    using d2 f2
    by (simp add: themes_def weapon_files_def stops_run_def pistol_path_join
        scale_weapon_damage_good)
  have th1: "''civil_war'' \<in> set themes" and th2: "''test_theme'' \<in> set themes"
    and wf: "''melee-weapons.json'' \<in> set weapon_files"
    by (simp_all add: themes_def weapon_files_def)
  from main_rescaler_exit_code [of sample_host good_fs] n obtain fs' out where
    run: "main_rescaler sample_host good_fs = (fs', out, Inr ())"
    and a: "\<forall>theme \<in> set themes. \<not> path_exists good_fs (path_join base_dir theme) \<longrightarrow>
              missing_dir_warning theme \<in> set out"
    and b: "\<forall>theme \<in> set themes. \<forall>weapon_file \<in> set weapon_files.
              path_exists good_fs (path_join base_dir theme) \<and>
              \<not> path_exists good_fs (path_join (path_join base_dir theme) weapon_file) \<longrightarrow>
              missing_file_warning theme weapon_file \<in> set out"
    by auto
  from a th1 d2 have wa: "missing_dir_warning ''civil_war'' \<in> set out" by blast
  from b th2 wf d1 f2 have wb: "missing_file_warning ''test_theme'' ''melee-weapons.json'' \<in> set out"
    by blast
  from run wa wb have good: "\<exists>fs' out. main_rescaler sample_host good_fs = (fs', out, Inr ()) \<and>
      missing_dir_warning ''civil_war'' \<in> set out \<and>
      missing_file_warning ''test_theme'' ''melee-weapons.json'' \<in> set out"
    by blast
  from run have x0: "exit_code (snd (snd (main_rescaler sample_host good_fs))) = 0"
    by (simp add: exit_code_def)
  have s: "stops_run sample_host read_only_fs ''test_theme'' ''ranged-weapons.json''
             PermissionError"
    by (simp add: stops_run_def pistol_path_join scale_weapon_damage_read_only)
       (simp add: path_exists_def read_only_fs_def pistol_path_def path_join_def base_dir_def)
  have wf2: "''ranged-weapons.json'' \<in> set weapon_files" by (simp add: weapon_files_def)
  from s th2 wf2 have "\<exists>theme \<in> set themes. \<exists>weapon_file \<in> set weapon_files. \<exists>e.
           stops_run sample_host read_only_fs theme weapon_file e"
    by blast
  with main_rescaler_exit_code [of sample_host read_only_fs]
  have x1: "exit_code (snd (snd (main_rescaler sample_host read_only_fs))) = 1"
    by auto
  from n d2 d1 f2 good x0 s x1 show ?thesis by blast
qed

text \<open>
  The claim C2 as the specification states it (exit code 0 on every input, malformed JSON
  included) fails on \<open>broken_fs\<close>: the error of \<open>json.load\<close> leaves \<open>main\<close> after
  the lines printed so far, the second file of the theme is never opened, and the exit
  code is 1.
\<close>

theorem main_rescaler_malformed_exit_1:
  "main_rescaler sample_host broken_fs =
     (broken_fs,
      banner @ [CHR 0x0A # ''Processing theme: test_theme'', ''Processing '' @ broken_path @ ''...''],
      Inl JSONDecodeError) \<and>
   exit_code (snd (snd (main_rescaler sample_host broken_fs))) = 1"
proof -
  have o: "open_read broken_fs broken_path = Inr broken_text"
    by (simp add: open_read_def broken_fs_def broken_path_def)
  have l: "loads sample_host broken_text = Inl JSONDecodeError"
    by (simp add: sample_host_def sample_texts_def broken_text_def pistol_text_def
        fist_text_def net_text_def)
  have s: "scale_weapon_damage sample_host broken_fs broken_path (PInt 5) =
     (broken_fs, [''Processing '' @ broken_path @ ''...''], Inl JSONDecodeError)"
    using o l by (rule scale_weapon_damage_malformed)
  have p: "path_join (path_join base_dir ''test_theme'') ''ranged-weapons.json'' = broken_path"
    by (simp add: broken_path_def path_join_def base_dir_def)
  have d: "path_exists broken_fs (path_join base_dir ''test_theme'')"
    by (simp add: path_exists_def broken_fs_def path_join_def base_dir_def)
  have e: "path_exists broken_fs broken_path"
    using o by (rule open_read_exists)
  have "main_rescaler sample_host broken_fs =
     (broken_fs,
      banner @ [CHR 0x0A # ''Processing theme: test_theme'', ''Processing '' @ broken_path @ ''...''],
      Inl JSONDecodeError)"
    by (simp add: main_rescaler_def themes_def weapon_files_def d p e s)
  then show ?thesis by (simp add: exit_code_def)
qed

section \<open>Properties of the Archive Relocator\<close>

subsection \<open>The argument check of \<open>main\<close>\<close>

text \<open>
  C5. Called with one argument that \<open>int()\<close> rejects, or that is an integer below 1 or
  above 9999, \<open>main\<close> exits with code 1 after a single line of output, whatever the
  directory holds, and leaves the directory as it is: no directory is created and no file
  moved. The line for an argument that is no integer differs from the line for an integer
  out of range.
\<close>

theorem invalid_argument_rejected:
  "(int_of env arg = None \<longrightarrow>
      main_relocator env [prog, arg] script_dir = (script_dir, [not_integer_message], 1)) \<and>
   (\<forall>n. int_of env arg = Some n \<and> (n < 1 \<or> 9999 < n) \<longrightarrow>
      main_relocator env [prog, arg] script_dir = (script_dir, [out_of_range_message], 1)) \<and>
   not_integer_message \<noteq> out_of_range_message"
  by (auto simp: main_relocator_def not_integer_message_def out_of_range_message_def)

theorem invalid_argument_examples:
  "int_of sample_env ''abc'' = None \<and>
   main_relocator sample_env [''move_cycle_to_completed.py'', ''abc''] plans13 =
     (plans13, [''Error: Cycle number must be a valid integer''], 1) \<and>
   int_of sample_env ''10000'' = Some 10000 \<and>
   main_relocator sample_env [''move_cycle_to_completed.py'', ''10000''] plans13 =
     (plans13, [''Error: Cycle number must be between 1 and 9999''], 1) \<and>
   int_of sample_env ''0'' = Some 0 \<and>
   main_relocator sample_env [''move_cycle_to_completed.py'', ''0''] plans13 =
     (plans13, [''Error: Cycle number must be between 1 and 9999''], 1)"
proof -
  have a: "int_of sample_env ''abc'' = None"
    by (simp add: sample_env_def sample_int_of_def digit_value_def upt_conv_Cons)
  have b: "int_of sample_env ''10000'' = Some 10000"
    by (simp add: sample_env_def sample_int_of_def digit_value_def upt_conv_Cons)
  have c: "int_of sample_env ''0'' = Some 0"
    by (simp add: sample_env_def sample_int_of_def digit_value_def upt_conv_Cons)
  note t = invalid_argument_rejected [of sample_env _ "''move_cycle_to_completed.py''" plans13]
  from t [of "''abc''"] a
  have 1: "main_relocator sample_env [''move_cycle_to_completed.py'', ''abc''] plans13 =
     (plans13, [not_integer_message], 1)" by blast
  from t [of "''10000''"] b
  have 2: "main_relocator sample_env [''move_cycle_to_completed.py'', ''10000''] plans13 =
     (plans13, [out_of_range_message], 1)" by simp
  from t [of "''0''"] c
  have 3: "main_relocator sample_env [''move_cycle_to_completed.py'', ''0''] plans13 =
     (plans13, [out_of_range_message], 1)" by simp
  from a b c 1 2 3 show ?thesis
    by (simp add: not_integer_message_def out_of_range_message_def)
qed

subsection \<open>The destination directory\<close>

lemma completed_no_match: "\<not> starts_with ''completed'' (butlast (pattern_of n))"
  by (simp add: pattern_of_def starts_with_def butlast_append)

lemma glob_mkdir:
  "mkdir_exist_ok script_dir = Inr script_dir1 \<Longrightarrow>
   glob script_dir1 (pattern_of n) = glob script_dir (pattern_of n)"
  by (auto simp: mkdir_exist_ok_def glob_def completed_no_match
      split: option.splits node.splits)

lemma completed_entries_mkdir:
  "mkdir_exist_ok script_dir = Inr script_dir1 \<Longrightarrow>
   completed_entries script_dir1 = completed_entries script_dir"
  by (auto simp: mkdir_exist_ok_def completed_entries_def map_add_def
      split: option.splits node.splits)

lemma mkdir_completed:
  "mkdir_exist_ok script_dir = Inr script_dir1 \<Longrightarrow>
   map_of script_dir1 ''completed'' = Some (Dir (completed_entries script_dir))"
  by (auto simp: mkdir_exist_ok_def completed_entries_def map_add_def
      split: option.splits node.splits)

lemma mkdir_other:
  "mkdir_exist_ok script_dir = Inr script_dir1 \<Longrightarrow> x \<noteq> ''completed'' \<Longrightarrow>
   map_of script_dir1 x = map_of script_dir x"
  by (auto simp: mkdir_exist_ok_def map_add_def split: option.splits node.splits)

lemma mkdir_distinct:
  "mkdir_exist_ok script_dir = Inr script_dir1 \<Longrightarrow> distinct (map fst script_dir) \<Longrightarrow>
   distinct (map fst script_dir1)"
  by (auto simp: mkdir_exist_ok_def map_of_eq_None_iff split: option.splits node.splits)

lemma mkdir_succeeds:
  "\<not> completed_is_file script_dir \<Longrightarrow> \<exists>script_dir1. mkdir_exist_ok script_dir = Inr script_dir1"
  by (auto simp: mkdir_exist_ok_def completed_is_file_def split: option.splits node.splits)

lemma shutil_move_completed:
  "shutil_move env sd name = Inr sd1 \<Longrightarrow> \<exists>es. map_of sd1 ''completed'' = Some (Dir es)"
  by (auto simp: shutil_move_def AList.update_conv' split: option.splits)

lemma move_loop_completed:
  "move_loop env names sd c = (sd', out, n) \<Longrightarrow>
   \<exists>es. map_of sd ''completed'' = Some (Dir es) \<Longrightarrow>
   \<exists>es. map_of sd' ''completed'' = Some (Dir es)"
proof (induction names arbitrary: sd c sd' out n)
  case Nil
  then show ?case by simp
next
  case (Cons name names)
  show ?case
  proof (cases "destination_exists sd name")
    case True
    with Cons.prems(1) obtain out2 where "move_loop env names sd c = (sd', out2, n)"
      by (auto split: prod.splits)
    from Cons.IH [OF this Cons.prems(2)] show ?thesis .
  next
    case False
    show ?thesis
    proof (cases "shutil_move env sd name")
      case (Inl e)
      with False Cons.prems(1) obtain out2 where "move_loop env names sd c = (sd', out2, n)"
        by (auto split: prod.splits)
      from Cons.IH [OF this Cons.prems(2)] show ?thesis .
    next
      case (Inr sd1)
      with False Cons.prems(1) obtain out2 where "move_loop env names sd1 (c + 1) = (sd', out2, n)"
        by (auto split: prod.splits)
      from Cons.IH [OF this shutil_move_completed [OF Inr]] show ?thesis .
    qed
  qed
qed

text \<open>
  C10. When \<open>plans\<close> has no entry \<open>completed\<close>, every run of \<open>move_cycle_files\<close>, for
  every cycle number, leaves a directory \<open>completed\<close> behind: it is created before the
  files are looked for. So a run that matches no file, and moves none, still returns a
  directory that differs from the one it got, by the new empty \<open>completed\<close>.
\<close>

theorem mkdir_before_glob:
  assumes "map_of script_dir ''completed'' = None"
  shows "(\<exists>entries. map_of (fst (move_cycle_files env script_dir cycle_number)) ''completed''
            = Some (Dir entries)) \<and>
         (glob script_dir (pattern_of cycle_number) = [] \<longrightarrow>
            move_cycle_files env script_dir cycle_number =
              (script_dir @ [(''completed'', Dir [])],
               [''No files found matching pattern: '' @ pattern_of cycle_number],
               Inr ()) \<and>
            script_dir @ [(''completed'', Dir [])] \<noteq> script_dir)"
proof -
  let ?sd1 = "script_dir @ [(''completed'', Dir [])]"
  from assms have mk: "mkdir_exist_ok script_dir = Inr ?sd1"
    by (simp add: mkdir_exist_ok_def)
  have g: "glob ?sd1 (pattern_of cycle_number) = glob script_dir (pattern_of cycle_number)"
    using mk by (rule glob_mkdir)
  have c1: "\<exists>es. map_of ?sd1 ''completed'' = Some (Dir es)"
    using mkdir_completed [OF mk] by blast
  have a: "\<exists>entries. map_of (fst (move_cycle_files env script_dir cycle_number)) ''completed''
            = Some (Dir entries)"
  proof (cases "glob script_dir (pattern_of cycle_number) = []")
    case True
    with mk g c1 show ?thesis by (simp add: move_cycle_files_def)
  next
    case False
    obtain sd2 out n where l: "move_loop env (glob script_dir (pattern_of cycle_number)) ?sd1 0
        = (sd2, out, n)"
      by (cases "move_loop env (glob script_dir (pattern_of cycle_number)) ?sd1 0") auto
    from move_loop_completed [OF l c1] False mk g l show ?thesis
      by (simp add: move_cycle_files_def)
  qed
  have b: "glob script_dir (pattern_of cycle_number) = [] \<longrightarrow>
            move_cycle_files env script_dir cycle_number =
              (?sd1, [''No files found matching pattern: '' @ pattern_of cycle_number], Inr ())"
    using mk g by (simp add: move_cycle_files_def)
  from a b show ?thesis by simp
qed

lemma str_nat_13: "str_nat 13 = ''13''"
  by (simp add: str_nat.simps digit_def)

lemma format_04d_13: "format_04d 13 = ''0013''"
  by (simp add: format_04d_def zero_pad_def str_nat_13 numeral_2_eq_2)

theorem mkdir_before_glob_example:
  "map_of plans_empty ''completed'' = None \<and>
   glob plans_empty (pattern_of 13) = [] \<and>
   move_cycle_files sample_env plans_empty 13 =
     ([(''README.md'', File ''readme''), (''completed'', Dir [])],
      [''No files found matching pattern: DevCycle_2025_0013*''],
      Inr ())"
proof -
  have a: "map_of plans_empty ''completed'' = None"
    by (simp add: plans_empty_def)
  have p: "pattern_of 13 = ''DevCycle_2025_0013*''"
    by (simp add: pattern_of_def format_04d_13)
  have g: "glob plans_empty (pattern_of 13) = []"
    by (simp add: p glob_def plans_empty_def starts_with_def)
  from mkdir_before_glob [OF a, of sample_env 13] a g show ?thesis
    by (simp add: p plans_empty_def)
qed

subsection \<open>The loop over the matching files\<close>

lemma shutil_move_effect:
  assumes "move_raises env name = None" and "map_of sd name = Some node"
    and "name \<noteq> ''completed''"
  shows "\<exists>sd1. shutil_move env sd name = Inr sd1 \<and>
           map_of sd1 name = None \<and>
           (\<forall>x. x \<noteq> name \<longrightarrow> x \<noteq> ''completed'' \<longrightarrow> map_of sd1 x = map_of sd x) \<and>
           completed_entries sd1 = completed_entries sd @ [(name, node)]"
  using assms
  by (simp add: shutil_move_def AList.update_conv' AList.delete_conv' completed_entries_def)

lemma move_loop_Cons_stay:
  "\<not> will_move env sd name \<Longrightarrow>
   move_loop env (name # names) sd c =
     (case move_loop env names sd c of (sd', out, n) \<Rightarrow> (sd', report env sd name # out, n))"
  by (auto simp: will_move_def report_def shutil_move_def split: option.splits prod.splits)

lemma move_loop_Cons_move:
  "will_move env sd name \<Longrightarrow> shutil_move env sd name = Inr sd1 \<Longrightarrow>
   move_loop env (name # names) sd c =
     (case move_loop env names sd1 (c + 1) of (sd', out, n) \<Rightarrow> (sd', report env sd name # out, n))"
  by (auto simp: will_move_def report_def split: option.splits prod.splits)

lemma destination_exists_after_move:
  assumes "completed_entries sd1 = completed_entries sd @ [(name, node)]" and "x \<noteq> name"
  shows "destination_exists sd1 x = destination_exists sd x"
  using assms by (simp add: destination_exists_def map_add_def split: option.splits)

lemma move_loop_effect:
  assumes "distinct names" and "''completed'' \<notin> set names"
    and "\<forall>x \<in> set names. map_of sd x \<noteq> None"
  shows "\<exists>sd'. move_loop env names sd c =
                 (sd', map (report env sd) names, c + length (filter (will_move env sd) names)) \<and>
           (\<forall>x. x \<noteq> ''completed'' \<longrightarrow>
               map_of sd' x = (if x \<in> set names \<and> will_move env sd x then None else map_of sd x)) \<and>
           (\<forall>x. map_of (completed_entries sd') x =
               (if x \<in> set names \<and> will_move env sd x then map_of sd x
                else map_of (completed_entries sd) x))"
  using assms
proof (induction names arbitrary: sd c)
  case Nil
  then show ?case by simp
next
  case (Cons name names)
  from Cons.prems have dist: "distinct names" and fresh: "name \<notin> set names"
    and nc: "''completed'' \<notin> set names" and nn: "name \<noteq> ''completed''"
    and here: "map_of sd name \<noteq> None" and rest: "\<forall>x \<in> set names. map_of sd x \<noteq> None"
    by auto
  show ?case
  proof (cases "will_move env sd name")
    case False
    from Cons.IH [OF dist nc rest, of c] obtain sd' where
      l: "move_loop env names sd c =
            (sd', map (report env sd) names, c + length (filter (will_move env sd) names))"
      and s: "\<forall>x. x \<noteq> ''completed'' \<longrightarrow>
               map_of sd' x = (if x \<in> set names \<and> will_move env sd x then None else map_of sd x)"
      and d: "\<forall>x. map_of (completed_entries sd') x =
               (if x \<in> set names \<and> will_move env sd x then map_of sd x
                else map_of (completed_entries sd) x)"
      by blast
    have eq: "move_loop env (name # names) sd c =
            (sd', map (report env sd) (name # names),
             c + length (filter (will_move env sd) (name # names)))"
      unfolding move_loop_Cons_stay [OF False] l using False by simp
    have s': "\<forall>x. x \<noteq> ''completed'' \<longrightarrow>
               map_of sd' x =
                 (if x \<in> set (name # names) \<and> will_move env sd x then None else map_of sd x)"
      using s False by auto
    have d': "\<forall>x. map_of (completed_entries sd') x =
               (if x \<in> set (name # names) \<and> will_move env sd x then map_of sd x
                else map_of (completed_entries sd) x)"
      using d False by auto
    from eq s' d' show ?thesis by blast
  next
    case True
    then have free: "move_raises env name = None" and nd: "\<not> destination_exists sd name"
      by (simp_all add: will_move_def)
    from here obtain node where node: "map_of sd name = Some node" by blast
    from shutil_move_effect [OF free node nn] obtain sd1 where
      mv: "shutil_move env sd name = Inr sd1"
      and gone: "map_of sd1 name = None"
      and other: "\<forall>x. x \<noteq> name \<longrightarrow> x \<noteq> ''completed'' \<longrightarrow> map_of sd1 x = map_of sd x"
      and ce: "completed_entries sd1 = completed_entries sd @ [(name, node)]"
      by blast
    have de: "destination_exists sd1 x = destination_exists sd x" if "x \<noteq> name" for x
      using ce that by (rule destination_exists_after_move)
    have wm: "will_move env sd1 x = will_move env sd x" if "x \<noteq> name" for x
      using de [OF that] by (simp add: will_move_def)
    have rp: "report env sd1 x = report env sd x" if "x \<noteq> name" for x
      using de [OF that] by (simp add: report_def)
    have rest1: "\<forall>x \<in> set names. map_of sd1 x \<noteq> None"
    proof
      fix x assume x: "x \<in> set names"
      with fresh nc have "x \<noteq> name" "x \<noteq> ''completed''" by auto
      with other rest x show "map_of sd1 x \<noteq> None" by simp
    qed
    from Cons.IH [OF dist nc rest1, of "c + 1"] obtain sd' where
      l: "move_loop env names sd1 (c + 1) =
            (sd', map (report env sd1) names, c + 1 + length (filter (will_move env sd1) names))"
      and s: "\<forall>x. x \<noteq> ''completed'' \<longrightarrow>
               map_of sd' x = (if x \<in> set names \<and> will_move env sd1 x then None else map_of sd1 x)"
      and d: "\<forall>x. map_of (completed_entries sd') x =
               (if x \<in> set names \<and> will_move env sd1 x then map_of sd1 x
                else map_of (completed_entries sd1) x)"
      by blast
    have m1: "map (report env sd1) names = map (report env sd) names"
      using fresh by (intro map_cong refl rp) auto
    have f1: "filter (will_move env sd1) names = filter (will_move env sd) names"
      using fresh by (intro filter_cong refl wm) auto
    have eq: "move_loop env (name # names) sd c =
            (sd', map (report env sd) (name # names),
             c + length (filter (will_move env sd) (name # names)))"
      unfolding move_loop_Cons_move [OF True mv] l using True by (simp add: m1 f1)
    have s': "\<forall>x. x \<noteq> ''completed'' \<longrightarrow>
               map_of sd' x =
                 (if x \<in> set (name # names) \<and> will_move env sd x then None else map_of sd x)"
    proof (intro allI impI)
      fix x assume xc: "x \<noteq> ''completed''"
      show "map_of sd' x =
                 (if x \<in> set (name # names) \<and> will_move env sd x then None else map_of sd x)"
      proof (cases "x = name")
        case True
        with s xc fresh gone \<open>will_move env sd name\<close> show ?thesis by simp
      next
        case False
        with s xc other wm [OF False] show ?thesis by simp
      qed
    qed
    have d': "\<forall>x. map_of (completed_entries sd') x =
               (if x \<in> set (name # names) \<and> will_move env sd x then map_of sd x
                else map_of (completed_entries sd) x)"
    proof
      fix x
      show "map_of (completed_entries sd') x =
               (if x \<in> set (name # names) \<and> will_move env sd x then map_of sd x
                else map_of (completed_entries sd) x)"
      proof (cases "x = name")
        case True
        from nd have "map_of (completed_entries sd) name = None"
          by (simp add: destination_exists_def)
        with d fresh ce node True \<open>will_move env sd name\<close> show ?thesis
          by (simp add: map_add_def)
      next
        case False
        have c1: "map_of (completed_entries sd1) x = map_of (completed_entries sd) x"
          using ce False by (simp add: map_add_def split: option.splits)
        show ?thesis
        proof (cases "x \<in> set names \<and> will_move env sd x")
          case True
          with nc have "x \<noteq> ''completed''" by auto
          with other False have "map_of sd1 x = map_of sd x" by simp
          with d True wm [OF False] show ?thesis by simp
        next
          case no: False
          with wm [OF False] have "\<not> (x \<in> set names \<and> will_move env sd1 x)" by simp
          with d have "map_of (completed_entries sd') x = map_of (completed_entries sd1) x"
            by auto
          with c1 no False show ?thesis by auto
        qed
      qed
    qed
    from eq s' d' show ?thesis by blast
  qed
qed

subsection \<open>Claims about \<open>move_cycle_files\<close>\<close>

lemma butlast_pattern_of: "butlast (pattern_of n) = ''DevCycle_2025_'' @ format_04d n"
  by (simp add: pattern_of_def butlast_append)

lemma glob_iff:
  "name \<in> set (glob sd (pattern_of n)) \<longleftrightarrow>
     name \<in> fst ` set sd \<and> starts_with name (''DevCycle_2025_'' @ format_04d n)"
  by (auto simp: glob_def butlast_pattern_of)

lemma glob_distinct: "distinct (map fst sd) \<Longrightarrow> distinct (glob sd pattern)"
  by (simp add: glob_def)

lemma glob_not_completed: "''completed'' \<notin> set (glob sd (pattern_of n))"
  using completed_no_match [of n] by (simp add: glob_def)

lemma glob_present: "\<forall>x \<in> set (glob sd pattern). map_of sd x \<noteq> None"
  by (auto simp: glob_def map_of_eq_None_iff)

lemma report_mkdir:
  "mkdir_exist_ok sd = Inr sd1 \<Longrightarrow> report env sd1 = report env sd"
  by (rule ext) (simp add: report_def destination_exists_def completed_entries_mkdir)

lemma will_move_mkdir:
  "mkdir_exist_ok sd = Inr sd1 \<Longrightarrow> will_move env sd1 = will_move env sd"
  by (rule ext) (simp add: will_move_def destination_exists_def completed_entries_mkdir)

lemma move_cycle_files_effect:
  assumes dist: "distinct (map fst script_dir)" and dir: "\<not> completed_is_file script_dir"
  shows "\<exists>sd'. move_cycle_files env script_dir n =
           (sd',
            (if glob script_dir (pattern_of n) = []
             then [''No files found matching pattern: '' @ pattern_of n]
             else found_line (length (glob script_dir (pattern_of n)))
                  # map (report env script_dir) (glob script_dir (pattern_of n))
                  @ [summary_line (length (filter (will_move env script_dir)
                                              (glob script_dir (pattern_of n))))]),
            Inr ()) \<and>
         (\<forall>x. x \<noteq> ''completed'' \<longrightarrow>
            map_of sd' x =
              (if x \<in> set (glob script_dir (pattern_of n)) \<and> will_move env script_dir x
               then None else map_of script_dir x)) \<and>
         (\<forall>x. map_of (completed_entries sd') x =
              (if x \<in> set (glob script_dir (pattern_of n)) \<and> will_move env script_dir x
               then map_of script_dir x else map_of (completed_entries script_dir) x))"
proof -
  let ?names = "glob script_dir (pattern_of n)"
  from mkdir_succeeds [OF dir] obtain sd1 where mk: "mkdir_exist_ok script_dir = Inr sd1"
    by blast
  have g: "glob sd1 (pattern_of n) = ?names" using mk by (rule glob_mkdir)
  have ce: "completed_entries sd1 = completed_entries script_dir"
    using mk by (rule completed_entries_mkdir)
  have other: "map_of sd1 x = map_of script_dir x" if "x \<noteq> ''completed''" for x
    using mk that by (rule mkdir_other)
  show ?thesis
  proof (cases "?names = []")
    case True
    have eq: "move_cycle_files env script_dir n =
                (sd1, [''No files found matching pattern: '' @ pattern_of n], Inr ())"
      using mk g True by (simp add: move_cycle_files_def Let_def)
    from eq other ce True show ?thesis by simp
  next
    case False
    have d1: "distinct ?names" using dist by (rule glob_distinct)
    have nc: "''completed'' \<notin> set ?names" by (rule glob_not_completed)
    have pr: "\<forall>x \<in> set ?names. map_of sd1 x \<noteq> None"
      using glob_present [of sd1 "pattern_of n"] g by simp
    from move_loop_effect [OF d1 nc pr, of env 0] obtain sd' where
      l: "move_loop env ?names sd1 0 =
            (sd', map (report env sd1) ?names, 0 + length (filter (will_move env sd1) ?names))"
      and s: "\<forall>x. x \<noteq> ''completed'' \<longrightarrow>
               map_of sd' x = (if x \<in> set ?names \<and> will_move env sd1 x then None else map_of sd1 x)"
      and d: "\<forall>x. map_of (completed_entries sd') x =
               (if x \<in> set ?names \<and> will_move env sd1 x then map_of sd1 x
                else map_of (completed_entries sd1) x)"
      by blast
    note r = report_mkdir [OF mk, of env] and w = will_move_mkdir [OF mk, of env]
    have eq: "move_cycle_files env script_dir n =
           (sd',
            found_line (length ?names) # map (report env script_dir) ?names
              @ [summary_line (length (filter (will_move env script_dir) ?names))],
            Inr ())"
      using mk g False l by (simp add: move_cycle_files_def Let_def r w found_line_def)
    have s': "\<forall>x. x \<noteq> ''completed'' \<longrightarrow>
            map_of sd' x =
              (if x \<in> set ?names \<and> will_move env script_dir x then None else map_of script_dir x)"
      using s other by (simp add: w)
    have d': "\<forall>x. map_of (completed_entries sd') x =
              (if x \<in> set ?names \<and> will_move env script_dir x
               then map_of script_dir x else map_of (completed_entries script_dir) x)"
    proof
      fix x
      show "map_of (completed_entries sd') x =
              (if x \<in> set ?names \<and> will_move env script_dir x
               then map_of script_dir x else map_of (completed_entries script_dir) x)"
      proof (cases "x \<in> set ?names \<and> will_move env script_dir x")
        case True
        with nc have "x \<noteq> ''completed''" by auto
        from other [OF this] d True show ?thesis by (simp add: w)
      next
        case no: False
        with d ce show ?thesis by (auto simp: w)
      qed
    qed
    from eq s' d' False show ?thesis by simp
  qed
qed

text \<open>
  C3, as amended. Let \<open>plans\<close> hold each name once and let \<open>completed\<close> not be a
  regular file. Every entry of \<open>plans\<close> whose name starts with the computed prefix is
  one of the matches, and the line of output printed for it tells its fate:
  if \<open>completed\<close> already held an entry of that name, the file is reported as skipped
  and both the file and that entry are as before; otherwise, if \<open>shutil.move\<close> does not
  raise, the file is reported as moved, is in \<open>completed\<close> and no longer in \<open>plans\<close>;
  otherwise it is reported with its error and stays in \<open>plans\<close>, \<open>completed\<close> not
  receiving it.
\<close>

theorem matching_file_moved_skipped_or_failed:
  assumes "distinct (map fst script_dir)" and "\<not> completed_is_file script_dir"
    and "map_of script_dir name = Some node"
    and "starts_with name (''DevCycle_2025_'' @ format_04d cycle_number)"
    and "move_cycle_files env script_dir cycle_number = (script_dir', out, r)"
  shows "\<exists>i < length (glob script_dir (pattern_of cycle_number)).
           glob script_dir (pattern_of cycle_number) ! i = name \<and>
           (if destination_exists script_dir name
            then out ! Suc i = skip_line name \<and>
                 map_of script_dir' name = Some node \<and>
                 map_of (completed_entries script_dir') name
                   = map_of (completed_entries script_dir) name
            else case move_raises env name of
                   None \<Rightarrow>
                     out ! Suc i = moved_line name \<and>
                     map_of script_dir' name = None \<and>
                     map_of (completed_entries script_dir') name = Some node
                 | Some e \<Rightarrow>
                     out ! Suc i = error_line env name e \<and>
                     map_of script_dir' name = Some node \<and>
                     map_of (completed_entries script_dir') name = None)"
proof -
  let ?names = "glob script_dir (pattern_of cycle_number)"
  from assms(3) have "name \<in> fst ` set script_dir"
    by (metis map_of_eq_None_iff option.distinct(1))
  with assms(4) have mem: "name \<in> set ?names" by (simp add: glob_iff)
  then have ne: "?names \<noteq> []" by auto
  from mem obtain i where i: "i < length ?names" and at: "?names ! i = name"
    by (auto simp: in_set_conv_nth)
  from glob_not_completed [of script_dir cycle_number] mem have nc: "name \<noteq> ''completed''"
    by auto
  from move_cycle_files_effect [OF assms(1,2), of env cycle_number] assms(5) ne
  have out: "out = found_line (length ?names) # map (report env script_dir) ?names
              @ [summary_line (length (filter (will_move env script_dir) ?names))]"
    and s: "\<forall>x. x \<noteq> ''completed'' \<longrightarrow>
            map_of script_dir' x =
              (if x \<in> set ?names \<and> will_move env script_dir x then None else map_of script_dir x)"
    and d: "\<forall>x. map_of (completed_entries script_dir') x =
              (if x \<in> set ?names \<and> will_move env script_dir x
               then map_of script_dir x else map_of (completed_entries script_dir) x)"
    by auto
  have line: "out ! Suc i = report env script_dir name"
    using i at by (simp add: out nth_append)
  from s nc mem have s': "map_of script_dir' name =
      (if will_move env script_dir name then None else Some node)"
    by (simp add: assms(3))
  from d mem have d': "map_of (completed_entries script_dir') name =
      (if will_move env script_dir name then Some node
       else map_of (completed_entries script_dir) name)"
    by (simp add: assms(3))
  have "if destination_exists script_dir name
            then out ! Suc i = skip_line name \<and>
                 map_of script_dir' name = Some node \<and>
                 map_of (completed_entries script_dir') name
                   = map_of (completed_entries script_dir) name
            else case move_raises env name of
                   None \<Rightarrow>
                     out ! Suc i = moved_line name \<and>
                     map_of script_dir' name = None \<and>
                     map_of (completed_entries script_dir') name = Some node
                 | Some e \<Rightarrow>
                     out ! Suc i = error_line env name e \<and>
                     map_of script_dir' name = Some node \<and>
                     map_of (completed_entries script_dir') name = None"
    using line s' d'
    by (auto simp: report_def will_move_def destination_exists_def split: option.splits)
  with i at show ?thesis by blast
qed

text \<open>
  C8, as amended. Let \<open>plans\<close> hold each name once and let \<open>completed\<close> not be a
  regular file. When at least one file matches, \<open>move_cycle_files\<close> returns normally
  whatever \<open>shutil.move\<close> raises; it prints one line for each match in turn, the error
  line with the exception for a file whose move raised; every match that has no namesake
  in \<open>completed\<close> and whose move does not raise is moved, whether or not a move before
  it failed, and no other match is; and the count of the final summary is the number of
  matches that left \<open>plans\<close>. (With no match there is no summary: see the run for
  cycle 14 below.)
\<close>

theorem failure_does_not_stop_the_loop:
  assumes "distinct (map fst script_dir)" and "\<not> completed_is_file script_dir"
    and "glob script_dir (pattern_of cycle_number) \<noteq> []"
  shows "\<exists>script_dir'.
           move_cycle_files env script_dir cycle_number =
             (script_dir',
              found_line (length (glob script_dir (pattern_of cycle_number)))
                # map (report env script_dir) (glob script_dir (pattern_of cycle_number))
                @ [summary_line (length (filter (\<lambda>name. map_of script_dir' name = None)
                                            (glob script_dir (pattern_of cycle_number))))],
              Inr ()) \<and>
           (\<forall>name \<in> set (glob script_dir (pattern_of cycle_number)).
              (map_of script_dir' name = None \<and>
               map_of (completed_entries script_dir') name = map_of script_dir name)
              = (\<not> destination_exists script_dir name \<and> move_raises env name = None)) \<and>
           (\<forall>name \<in> set (glob script_dir (pattern_of cycle_number)). \<forall>e.
              \<not> destination_exists script_dir name \<and> move_raises env name = Some e \<longrightarrow>
              report env script_dir name = error_line env name e)"
proof -
  let ?names = "glob script_dir (pattern_of cycle_number)"
  from move_cycle_files_effect [OF assms(1,2), of env cycle_number] assms(3)
  obtain sd' where
    eq: "move_cycle_files env script_dir cycle_number =
           (sd',
            found_line (length ?names) # map (report env script_dir) ?names
              @ [summary_line (length (filter (will_move env script_dir) ?names))],
            Inr ())"
    and s: "\<forall>x. x \<noteq> ''completed'' \<longrightarrow>
            map_of sd' x =
              (if x \<in> set ?names \<and> will_move env script_dir x then None else map_of script_dir x)"
    and d: "\<forall>x. map_of (completed_entries sd') x =
              (if x \<in> set ?names \<and> will_move env script_dir x
               then map_of script_dir x else map_of (completed_entries script_dir) x)"
    by auto
  have gone: "(map_of sd' x = None) = will_move env script_dir x" if "x \<in> set ?names" for x
  proof -
    from that glob_not_completed [of script_dir cycle_number] have "x \<noteq> ''completed''" by auto
    moreover from that glob_present [of script_dir "pattern_of cycle_number"]
    have "map_of script_dir x \<noteq> None" by blast
    ultimately show ?thesis using s that by auto
  qed
  have arrived: "(map_of sd' x = None \<and> map_of (completed_entries sd') x = map_of script_dir x)
      = will_move env script_dir x" if "x \<in> set ?names" for x
    using gone [OF that] d that by auto
  have f: "filter (\<lambda>name. map_of sd' name = None) ?names = filter (will_move env script_dir) ?names"
    by (rule filter_cong [OF refl]) (rule gone)
  have a: "move_cycle_files env script_dir cycle_number =
             (sd',
              found_line (length ?names) # map (report env script_dir) ?names
                @ [summary_line (length (filter (\<lambda>name. map_of sd' name = None) ?names))],
              Inr ())"
    by (simp only: f eq)
  have b: "\<forall>name \<in> set ?names.
              (map_of sd' name = None \<and>
               map_of (completed_entries sd') name = map_of script_dir name)
              = (\<not> destination_exists script_dir name \<and> move_raises env name = None)"
    using arrived by (simp add: will_move_def)
  have c: "\<forall>name \<in> set ?names. \<forall>e.
              \<not> destination_exists script_dir name \<and> move_raises env name = Some e \<longrightarrow>
              report env script_dir name = error_line env name e"
    by (simp add: report_def)
  from a b c show ?thesis by blast
qed

subsection \<open>The runs on \<open>plans13\<close>\<close>

lemma str_nat_14: "str_nat 14 = ''14''"
  by (simp add: str_nat.simps digit_def)

lemma format_04d_14: "format_04d 14 = ''0014''"
  by (simp add: format_04d_def zero_pad_def str_nat_14 numeral_2_eq_2)

lemma str_nat_small: "str_nat (Suc 0) = ''1''" "str_nat (Suc (Suc (Suc 0))) = ''3''"
  by (simp_all add: str_nat.simps [of "Suc 0"] str_nat.simps [of "Suc (Suc (Suc 0))"] digit_def)

lemma distinct_plans13: "distinct (map fst plans13)"
  by (simp add: plans13_def)

lemma completed_plans13: "completed_is_file plans13 = False"
  by (simp add: completed_is_file_def plans13_def)

lemma glob_plans13:
  "glob plans13 (pattern_of 13) =
     [''DevCycle_2025_0013_locked.md'', ''DevCycle_2025_0013.md'', ''DevCycle_2025_0013_bugs_01.md'']"
  by (simp add: glob_def pattern_of_def format_04d_13 plans13_def starts_with_def)

lemma glob_plans13_14: "glob plans13 (pattern_of 14) = []"
  by (simp add: glob_def pattern_of_def format_04d_14 plans13_def starts_with_def)

lemma mkdir_plans13: "mkdir_exist_ok plans13 = Inr plans13"
  by (simp add: mkdir_exist_ok_def plans13_def)

lemma run_plans13: "move_cycle_files sample_env plans13 13 = (plans13_after, plans13_out, Inr ())"
proof -
  have l: "move_loop sample_env
          [''DevCycle_2025_0013_locked.md'', ''DevCycle_2025_0013.md'', ''DevCycle_2025_0013_bugs_01.md'']
          plans13 0 =
        (plans13_after,
         [error_line sample_env ''DevCycle_2025_0013_locked.md'' PermissionError,
          moved_line ''DevCycle_2025_0013.md'',
          skip_line ''DevCycle_2025_0013_bugs_01.md''], 1)"
    by (simp add: plans13_def plans13_after_def destination_exists_def completed_entries_def
        shutil_move_def sample_env_def)
  show ?thesis
    by (simp add: move_cycle_files_def mkdir_plans13 glob_plans13 Let_def plans13_out_def
        str_nat_small l summary_line_def del: move_loop.simps)
qed

theorem moved_file_example:
  "distinct (map fst plans13) \<and> completed_is_file plans13 = False \<and>
   map_of plans13 ''DevCycle_2025_0013.md'' = Some (File ''plan'') \<and>
   starts_with ''DevCycle_2025_0013.md'' (''DevCycle_2025_'' @ format_04d 13) \<and>
   move_cycle_files sample_env plans13 13 = (plans13_after, plans13_out, Inr ()) \<and>
   destination_exists plans13 ''DevCycle_2025_0013.md'' = False \<and>
   move_raises sample_env ''DevCycle_2025_0013.md'' = None \<and>
   map_of plans13_after ''DevCycle_2025_0013.md'' = None \<and>
   map_of (completed_entries plans13_after) ''DevCycle_2025_0013.md'' = Some (File ''plan'')"
proof -
  have d: "\<not> completed_is_file plans13" by (simp add: completed_plans13)
  have m: "map_of plans13 ''DevCycle_2025_0013.md'' = Some (File ''plan'')"
    by (simp add: plans13_def)
  have p: "starts_with ''DevCycle_2025_0013.md'' (''DevCycle_2025_'' @ format_04d 13)"
    by (simp add: starts_with_def format_04d_13)
  have e: "destination_exists plans13 ''DevCycle_2025_0013.md'' = False"
    by (simp add: destination_exists_def completed_entries_def plans13_def)
  have f: "move_raises sample_env ''DevCycle_2025_0013.md'' = None"
    by (simp add: sample_env_def)
  from matching_file_moved_skipped_or_failed [OF distinct_plans13 d m p run_plans13] e f
  have "map_of plans13_after ''DevCycle_2025_0013.md'' = None \<and>
        map_of (completed_entries plans13_after) ''DevCycle_2025_0013.md'' = Some (File ''plan'')"
    by auto
  with distinct_plans13 completed_plans13 m p run_plans13 e f show ?thesis by simp
qed

text \<open>
  The claim C3 as the specification states it (every matching file without a namesake in
  the destination ends up there) fails on \<open>plans13\<close>: the move of
  \<open>DevCycle_2025_0013_locked.md\<close> raises, the handler of the loop prints the error, and
  the file is still in \<open>plans\<close> and not in \<open>completed\<close> after the run.
\<close>

theorem failed_move_stays_in_source:
  "map_of plans13 ''DevCycle_2025_0013_locked.md'' = Some (File ''notes'') \<and>
   starts_with ''DevCycle_2025_0013_locked.md'' (''DevCycle_2025_'' @ format_04d 13) \<and>
   destination_exists plans13 ''DevCycle_2025_0013_locked.md'' = False \<and>
   move_cycle_files sample_env plans13 13 = (plans13_after, plans13_out, Inr ()) \<and>
   map_of plans13_after ''DevCycle_2025_0013_locked.md'' = Some (File ''notes'') \<and>
   map_of (completed_entries plans13_after) ''DevCycle_2025_0013_locked.md'' = None"
proof -
  have a: "map_of plans13 ''DevCycle_2025_0013_locked.md'' = Some (File ''notes'')"
    by (simp add: plans13_def)
  have b: "starts_with ''DevCycle_2025_0013_locked.md'' (''DevCycle_2025_'' @ format_04d 13)"
    by (simp add: starts_with_def format_04d_13)
  have c: "destination_exists plans13 ''DevCycle_2025_0013_locked.md'' = False"
    by (simp add: destination_exists_def completed_entries_def plans13_def)
  have d: "map_of plans13_after ''DevCycle_2025_0013_locked.md'' = Some (File ''notes'')"
    by (simp add: plans13_after_def)
  have e: "map_of (completed_entries plans13_after) ''DevCycle_2025_0013_locked.md'' = None"
    by (simp add: completed_entries_def plans13_after_def)
  from a b c run_plans13 d e show ?thesis by blast
qed

theorem failure_does_not_stop_the_loop_example:
  "distinct (map fst plans13) \<and> completed_is_file plans13 = False \<and>
   glob plans13 (pattern_of 13) =
     [''DevCycle_2025_0013_locked.md'', ''DevCycle_2025_0013.md'', ''DevCycle_2025_0013_bugs_01.md''] \<and>
   move_raises sample_env ''DevCycle_2025_0013_locked.md'' = Some PermissionError \<and>
   (\<exists>script_dir'.
      move_cycle_files sample_env plans13 13 =
        (script_dir',
         [''Found 3 files to move:'',
          error_line sample_env ''DevCycle_2025_0013_locked.md'' PermissionError,
          moved_line ''DevCycle_2025_0013.md'',
          skip_line ''DevCycle_2025_0013_bugs_01.md'',
          summary_line (length (filter (\<lambda>name. map_of script_dir' name = None)
             [''DevCycle_2025_0013_locked.md'', ''DevCycle_2025_0013.md'',
              ''DevCycle_2025_0013_bugs_01.md'']))],
         Inr ()) \<and>
      map_of script_dir' ''DevCycle_2025_0013.md'' = None \<and>
      map_of (completed_entries script_dir') ''DevCycle_2025_0013.md'' = Some (File ''plan''))"
proof -
  have d: "\<not> completed_is_file plans13" by (simp add: completed_plans13)
  have ne: "glob plans13 (pattern_of 13) \<noteq> []" by (simp add: glob_plans13)
  have r: "move_raises sample_env ''DevCycle_2025_0013_locked.md'' = Some PermissionError"
    by (simp add: sample_env_def)
  have f: "move_raises sample_env ''DevCycle_2025_0013.md'' = None"
    by (simp add: sample_env_def)
  have e: "\<not> destination_exists plans13 ''DevCycle_2025_0013.md''"
    by (simp add: destination_exists_def completed_entries_def plans13_def)
  have m: "map_of plans13 ''DevCycle_2025_0013.md'' = Some (File ''plan'')"
    by (simp add: plans13_def)
  have rep: "map (report sample_env plans13) (glob plans13 (pattern_of 13)) =
         [error_line sample_env ''DevCycle_2025_0013_locked.md'' PermissionError,
          moved_line ''DevCycle_2025_0013.md'',
          skip_line ''DevCycle_2025_0013_bugs_01.md'']"
    unfolding glob_plans13
    by (simp add: report_def destination_exists_def completed_entries_def
        plans13_def sample_env_def)
  from failure_does_not_stop_the_loop [OF distinct_plans13 d ne, of sample_env]
  obtain sd' where
    a: "move_cycle_files sample_env plans13 13 =
             (sd',
              found_line (length (glob plans13 (pattern_of 13)))
                # map (report sample_env plans13) (glob plans13 (pattern_of 13))
                @ [summary_line (length (filter (\<lambda>name. map_of sd' name = None)
                                            (glob plans13 (pattern_of 13))))],
              Inr ())"
    and b: "\<forall>name \<in> set (glob plans13 (pattern_of 13)).
              (map_of sd' name = None \<and>
               map_of (completed_entries sd') name = map_of plans13 name)
              = (\<not> destination_exists plans13 name \<and> move_raises sample_env name = None)"
    by blast
  from b e f m have c: "map_of sd' ''DevCycle_2025_0013.md'' = None \<and>
      map_of (completed_entries sd') ''DevCycle_2025_0013.md'' = Some (File ''plan'')"
    by (simp add: glob_plans13)
  have a': "move_cycle_files sample_env plans13 13 =
        (sd',
         [''Found 3 files to move:'',
          error_line sample_env ''DevCycle_2025_0013_locked.md'' PermissionError,
          moved_line ''DevCycle_2025_0013.md'',
          skip_line ''DevCycle_2025_0013_bugs_01.md'',
          summary_line (length (filter (\<lambda>name. map_of sd' name = None)
             [''DevCycle_2025_0013_locked.md'', ''DevCycle_2025_0013.md'',
              ''DevCycle_2025_0013_bugs_01.md'']))],
         Inr ())"
    using a unfolding rep unfolding glob_plans13
    by (simp add: found_line_def str_nat_small)
  from a' c have "\<exists>script_dir'.
      move_cycle_files sample_env plans13 13 =
        (script_dir',
         [''Found 3 files to move:'',
          error_line sample_env ''DevCycle_2025_0013_locked.md'' PermissionError,
          moved_line ''DevCycle_2025_0013.md'',
          skip_line ''DevCycle_2025_0013_bugs_01.md'',
          summary_line (length (filter (\<lambda>name. map_of script_dir' name = None)
             [''DevCycle_2025_0013_locked.md'', ''DevCycle_2025_0013.md'',
              ''DevCycle_2025_0013_bugs_01.md'']))],
         Inr ()) \<and>
      map_of script_dir' ''DevCycle_2025_0013.md'' = None \<and>
      map_of (completed_entries script_dir') ''DevCycle_2025_0013.md'' = Some (File ''plan'')"
    by blast
  with distinct_plans13 completed_plans13 glob_plans13 r show ?thesis by blast
qed

text \<open>
  The claim C8 as the specification states it (a final summary count on every run) fails
  on the run for cycle 14: no file matches, the function returns after the line
  \<open>No files found\<close>, and no count is printed.
\<close>

theorem no_match_no_summary:
  "glob plans13 (pattern_of 14) = [] \<and>
   move_cycle_files sample_env plans13 14 =
     (plans13, [''No files found matching pattern: DevCycle_2025_0014*''], Inr ()) \<and>
   last [''No files found matching pattern: DevCycle_2025_0014*''] \<noteq> summary_line 0"
proof -
  have p: "pattern_of 14 = ''DevCycle_2025_0014*''"
    by (simp add: pattern_of_def format_04d_14)
  have r: "move_cycle_files sample_env plans13 14 =
     (plans13, [''No files found matching pattern: '' @ pattern_of 14], Inr ())"
    by (simp add: move_cycle_files_def mkdir_plans13 glob_plans13_14 Let_def)
  have s: "last [''No files found matching pattern: DevCycle_2025_0014*''] \<noteq> summary_line 0"
    by (simp add: summary_line_def)
  from glob_plans13_14 r s show ?thesis by (simp add: p)
qed

end
